theory Spec2Isabelle
  imports Complex_Main
begin

section \<open>Values of the Python program\<close>

text \<open>
  The program of \<^verbatim>\<open>download_structures.py\<close> works on what \<^verbatim>\<open>json.loads\<close> returns.
  A float is modelled by the rational it denotes; an int is the same number. Python's
  \<^verbatim>\<open>True\<close> and \<^verbatim>\<open>False\<close> are the numbers 1 and 0 for \<^verbatim>\<open>==\<close>, for hashing and
  for \<^verbatim>\<open>float\<close>, and every other operation of this program fails on them as it does on
  a number, so JSON booleans are \<open>JNum 1\<close> and \<open>JNum 0\<close>. An object is the list of its
  bindings; the first binding of a key is the one a lookup returns.
\<close>

datatype json =
    JNull
  | JNum rat
  | JStr string
  | JArr "json list"
  | JObj "(string \<times> json) list"

datatype py_error =
    KeyError
  | IndexError
  | TypeError
  | ValueError
  | UnboundLocalError
  | RequestError

text \<open>\<^verbatim>\<open>x[k]\<close> for a string key \<open>k\<close>.\<close>

fun py_getitem :: "json \<Rightarrow> string \<Rightarrow> py_error + json" where
  "py_getitem (JObj kvs) k = (case map_of kvs k of None \<Rightarrow> Inl KeyError | Some v \<Rightarrow> Inr v)"
| "py_getitem (JArr xs) k = Inl TypeError"
| "py_getitem (JStr s) k = Inl TypeError"
| "py_getitem (JNum r) k = Inl TypeError"
| "py_getitem JNull k = Inl TypeError"

text \<open>\<^verbatim>\<open>x[0]\<close>. The keys of a JSON object are strings, so 0 is never one of them.\<close>

fun py_getitem0 :: "json \<Rightarrow> py_error + json" where
  "py_getitem0 (JArr []) = Inl IndexError"
| "py_getitem0 (JArr (x # xs)) = Inr x"
| "py_getitem0 (JStr []) = Inl IndexError"
| "py_getitem0 (JStr (c # cs)) = Inr (JStr [c])"
| "py_getitem0 (JObj kvs) = Inl KeyError"
| "py_getitem0 (JNum r) = Inl TypeError"
| "py_getitem0 JNull = Inl TypeError"

text \<open>\<^verbatim>\<open>x[3:]\<close>. Slicing a dict raises (TypeError or KeyError with the Python version).\<close>

fun py_slice3 :: "json \<Rightarrow> py_error + json" where
  "py_slice3 (JStr s) = Inr (JStr (drop 3 s))"
| "py_slice3 (JArr xs) = Inr (JArr (drop 3 xs))"
| "py_slice3 (JObj kvs) = Inl TypeError"
| "py_slice3 (JNum r) = Inl TypeError"
| "py_slice3 JNull = Inl TypeError"

fun is_prefix :: "'a list \<Rightarrow> 'a list \<Rightarrow> bool" where
  "is_prefix [] ys = True"
| "is_prefix (x # xs) [] = False"
| "is_prefix (x # xs) (y # ys) = (x = y \<and> is_prefix xs ys)"

fun is_substring :: "'a list \<Rightarrow> 'a list \<Rightarrow> bool" where
  "is_substring xs [] = (xs = [])"
| "is_substring xs (y # ys) = (is_prefix xs (y # ys) \<or> is_substring xs ys)"

text \<open>\<^verbatim>\<open>k in x\<close> for a string \<open>k\<close>: a key of a dict, an element of a list, a substring of a
  string; a TypeError on a value that is not iterable.\<close>

fun py_contains :: "string \<Rightarrow> json \<Rightarrow> py_error + bool" where
  "py_contains k (JObj kvs) = Inr (k \<in> set (map fst kvs))"
| "py_contains k (JArr xs) = Inr (JStr k \<in> set xs)"
| "py_contains k (JStr s) = Inr (is_substring k s)"
| "py_contains k (JNum r) = Inl TypeError"
| "py_contains k JNull = Inl TypeError"

text \<open>\<^verbatim>\<open>for e in x\<close>: the elements of a list, the keys of a dict, the characters of a string.\<close>

fun py_iter :: "json \<Rightarrow> py_error + json list" where
  "py_iter (JArr xs) = Inr xs"
| "py_iter (JObj kvs) = Inr (map JStr (remdups (map fst kvs)))"
| "py_iter (JStr s) = Inr (map (\<lambda>c. JStr [c]) s)"
| "py_iter (JNum r) = Inl TypeError"
| "py_iter JNull = Inl TypeError"

text \<open>Lists and dicts are unhashable: \<^verbatim>\<open>set(xs)\<close> raises TypeError on one.\<close>

fun hashable :: "json \<Rightarrow> bool" where
  "hashable (JArr xs) = False"
| "hashable (JObj kvs) = False"
| "hashable v = True"

subsection \<open>float\<close>

definition digit_of :: "char \<Rightarrow> nat option" where
  "digit_of = map_of
     [(CHR ''0'', 0), (CHR ''1'', 1), (CHR ''2'', 2), (CHR ''3'', 3), (CHR ''4'', 4),
      (CHR ''5'', 5), (CHR ''6'', 6), (CHR ''7'', 7), (CHR ''8'', 8), (CHR ''9'', 9)]"

text \<open>The number written by a string of decimal digits, read from the left with the
  value so far in \<open>acc\<close>; None when a character is not a digit.\<close>

fun digits_value :: "nat \<Rightarrow> string \<Rightarrow> nat option" where
  "digits_value acc [] = Some acc"
| "digits_value acc (c # cs) =
     (case digit_of c of None \<Rightarrow> None | Some d \<Rightarrow> digits_value (10 * acc + d) cs)"

text \<open>
  \<^verbatim>\<open>float(s)\<close> on a string, for the plain decimal literals: an optional sign, digits, and
  an optional point followed by digits, with a digit somewhere. The other spellings
  Python reads (an exponent, \<^verbatim>\<open>inf\<close>, \<^verbatim>\<open>nan\<close>, underscores, blanks around the literal) are
  outside this fragment and no statement below relies on them.
\<close>

definition float_str :: "string \<Rightarrow> rat option" where
  "float_str s =
     (let negative = (case s of [] \<Rightarrow> False | c # _ \<Rightarrow> c = CHR ''-'');
          signed = (case s of [] \<Rightarrow> False | c # _ \<Rightarrow> c = CHR ''-'' \<or> c = CHR ''+'');
          body = (if signed then tl s else s);
          ip = takeWhile (\<lambda>c. c \<noteq> CHR ''.'') body;
          fp = (case dropWhile (\<lambda>c. c \<noteq> CHR ''.'') body of [] \<Rightarrow> [] | _ # f \<Rightarrow> f)
      in if ip @ fp = [] then None
         else (case digits_value 0 (ip @ fp) of
                 None \<Rightarrow> None
               | Some m \<Rightarrow>
                   Some ((if negative then - 1 else 1) * (of_nat m / of_nat (10 ^ length fp)))))"

text \<open>\<^verbatim>\<open>float(x)\<close>: TypeError on None, a list or a dict, ValueError on a string that is
  not a number.\<close>

fun py_float :: "json \<Rightarrow> py_error + rat" where
  "py_float (JNum r) = Inr r"
| "py_float (JStr s) = (case float_str s of None \<Rightarrow> Inl ValueError | Some r \<Rightarrow> Inr r)"
| "py_float JNull = Inl TypeError"
| "py_float (JArr xs) = Inl TypeError"
| "py_float (JObj kvs) = Inl TypeError"

text \<open>Sequencing of two steps that may raise, and \<^verbatim>\<open>try: ... except: v = None\<close>.\<close>

definition and_then :: "py_error + 'a \<Rightarrow> ('a \<Rightarrow> py_error + 'b) \<Rightarrow> py_error + 'b" where
  "and_then r f = (case r of Inl e \<Rightarrow> Inl e | Inr v \<Rightarrow> f v)"

definition or_none :: "py_error + 'a \<Rightarrow> 'a option" where
  "or_none r = (case r of Inl e \<Rightarrow> None | Inr v \<Rightarrow> Some v)"

section \<open>chunks\<close>

text \<open>
  \<^verbatim>\<open>for i in range(0, len(lst), n): yield lst[i:i + n]\<close>.
  \<open>chunks_from lst n i\<close> is the loop from index \<open>i\<close> on, for a positive step.
\<close>

function chunks_from :: "'a list \<Rightarrow> nat \<Rightarrow> nat \<Rightarrow> 'a list list" where
  "chunks_from lst n i =
     (if 0 < n \<and> i < length lst then take n (drop i lst) # chunks_from lst n (i + n) else [])"
  by pat_completeness auto
termination
  by (relation "measure (\<lambda>(lst, n, i). length lst - i)") auto

declare chunks_from.simps [simp del]

text \<open>\<^verbatim>\<open>range\<close> raises ValueError on a zero step and is empty on a negative one.\<close>

definition chunks :: "'a list \<Rightarrow> int \<Rightarrow> py_error + 'a list list" where
  "chunks lst n =
     (if n = 0 then Inl ValueError
      else if n < 0 then Inr []
      else Inr (chunks_from lst (nat n) 0))"

definition CHUNK_SIZE :: int where
  "CHUNK_SIZE = 1000"

section \<open>Structures and the state of the program\<close>

text \<open>
  Modelled from the spec: the class \<^verbatim>\<open>Structure\<close> of \<^verbatim>\<open>pdb_crystal_database\<close>, which is
  not among the sources. The spec describes a record of the identifier, the
  linked-publication id, the details, the sequences, the pH, the temperature, the method
  and the resolution; the fields here are the nine arguments of the call at line 208,
  \<^verbatim>\<open>Structure(pdbid, pmcid, details, [], pH, temperature, method, sequences, resolution)\<close>,
  in that order, \<open>compounds\<close> being the fourth, which the call leaves empty.
  None is \<open>JNull\<close> in a field that holds a JSON value and \<open>None\<close> in a float field.
\<close>

record Structure =
  pdbid :: json
  pmcid :: json
  details :: json
  compounds :: "json list"
  pH :: "rat option"
  temperature :: "rat option"
  crystal_method :: json
  sequences :: "string list"
  resolution :: "rat option"

text \<open>
  The two module globals, the two files (None: the file does not exist), the local
  variable \<^verbatim>\<open>resolution\<close> of the running call of \<^verbatim>\<open>fetchStructures\<close> (None: not bound
  yet) and the batches sent to the remote service so far.
\<close>

record state =
  structureList :: "Structure list"
  pdbsWithoutDetails :: "json list"
  structures_file :: "Structure list option"
  without_details_file :: "json list option"
  resolution_local :: "rat option"
  requests :: "string list list"

text \<open>Modelled from the spec: \<^verbatim>\<open>getStructure\<close> of \<^verbatim>\<open>pdb_crystal_database\<close>, which is
  not among the sources; the spec calls it lookup by key. It returns the first structure
  of the list with the identifier, or None. Identifiers are compared as JSON values.\<close>

definition getStructure :: "Structure list \<Rightarrow> json \<Rightarrow> Structure option" where
  "getStructure sl p = find (\<lambda>s. pdbid s = p) sl"

text \<open>Lines 209 to 213: \<^verbatim>\<open>list.remove\<close> deletes the first element equal to its argument.\<close>

definition insert_structure :: "Structure list \<Rightarrow> Structure \<Rightarrow> Structure list" where
  "insert_structure sl s =
     (case getStructure sl (pdbid s) of
        None \<Rightarrow> sl @ [s]
      | Some structureAlreadyInList \<Rightarrow> remove1 structureAlreadyInList sl @ [s])"

text \<open>Modelled from the spec: \<^verbatim>\<open>writeStructures\<close> of \<^verbatim>\<open>pdb_crystal_database\<close> and
  \<^verbatim>\<open>writeJson\<close> of \<^verbatim>\<open>misc_functions\<close>, which are not among the sources; the spec has
  them save all records, and the exclusion list, as a unit. The two calls
  \<^verbatim>\<open>writeStructures(structureList, structureFile)\<close> and
  \<^verbatim>\<open>writeJson(pdbsWithoutDetails, WITHOUT_DETAILS_FILE)\<close> of lines 218 and 219, and of
  lines 271 and 272.\<close>

definition save :: "state \<Rightarrow> state" where
  "save st = st\<lparr>structures_file := Some (structureList st),
                without_details_file := Some (pdbsWithoutDetails st)\<rparr>"

section \<open>fetchStructures\<close>

text \<open>Lines 182 to 186.\<close>

definition extract_pmcid :: "json \<Rightarrow> json" where
  "extract_pmcid entry =
     (case and_then (and_then (py_getitem entry ''pubmed'')
                       (\<lambda>pm. py_getitem pm ''rcsb_pubmed_central_id'')) py_slice3 of
        Inl e \<Rightarrow> JNull
      | Inr v \<Rightarrow> v)"

text \<open>Lines 203 to 206: the conversion of the first resolution.\<close>

definition extract_resolution :: "json \<Rightarrow> py_error + rat" where
  "extract_resolution entry =
     and_then (and_then (and_then (py_getitem entry ''rcsb_entry_info'')
                 (\<lambda>info. py_getitem info ''resolution_combined'')) py_getitem0) py_float"

text \<open>
  Lines 182 to 213, for the identifier \<open>p\<close>, the details \<open>d\<close> and the first growth
  condition \<open>crystalEntry\<close>. When the conversion of the resolution raises, the handler
  assigns \<^verbatim>\<open>resultion\<close>, so \<^verbatim>\<open>resolution\<close> keeps the value of an earlier entry, and
  reading it raises UnboundLocalError when no earlier entry has bound it.
\<close>

definition build_structure :: "json \<Rightarrow> json \<Rightarrow> json \<Rightarrow> json \<Rightarrow> state \<Rightarrow> py_error option \<times> state" where
  "build_structure p d crystalEntry entry st =
     (let pm = extract_pmcid entry;
          ph = or_none (and_then (py_getitem crystalEntry ''pH'') py_float);
          t = or_none (and_then (py_getitem crystalEntry ''temp'') py_float)
      in case py_getitem crystalEntry ''method'' of
           Inl e \<Rightarrow> (Some e, st)
         | Inr m \<Rightarrow>
             (let st' = (case extract_resolution entry of
                           Inl e \<Rightarrow> st
                         | Inr r \<Rightarrow> st\<lparr>resolution_local := Some r\<rparr>)
              in case resolution_local st' of
                   None \<Rightarrow> (Some UnboundLocalError, st')
                 | Some r \<Rightarrow>
                     (None, st'\<lparr>structureList :=
                        insert_structure (structureList st')
                          \<lparr>pdbid = p, pmcid = pm, details = d, compounds = [], pH = ph,
                           temperature = t, crystal_method = m, sequences = [],
                           resolution = Some r\<rparr>\<rparr>)))"

text \<open>The body of the loop over the entries of a response, lines 168 to 213.\<close>

definition process_entry :: "bool \<Rightarrow> json \<Rightarrow> state \<Rightarrow> py_error option \<times> state" where
  "process_entry onlyDetails entry st =
     (case py_getitem entry ''rcsb_id'' of
        Inl e \<Rightarrow> (Some e, st)
      | Inr p \<Rightarrow>
     (case py_getitem entry ''exptl_crystal_grow'' of
        Inl e \<Rightarrow> (Some e, st)
      | Inr grow \<Rightarrow>
     if grow = JNull
     then (None, st\<lparr>pdbsWithoutDetails := pdbsWithoutDetails st @ [p]\<rparr>)
     else
     (case py_getitem0 grow of
        Inl e \<Rightarrow> (Some e, st)
      | Inr crystalEntry \<Rightarrow>
     (case py_getitem crystalEntry ''pdbx_details'' of
        Inl e \<Rightarrow> (Some e, st)
      | Inr d \<Rightarrow>
     (let st' = (if d = JNull
                 then st\<lparr>pdbsWithoutDetails := pdbsWithoutDetails st @ [p]\<rparr>
                 else st)
      in if d = JNull \<and> onlyDetails then (None, st')
         else build_structure p d crystalEntry entry st')))))"

fun process_entries :: "bool \<Rightarrow> json list \<Rightarrow> state \<Rightarrow> py_error option \<times> state" where
  "process_entries onlyDetails [] st = (None, st)"
| "process_entries onlyDetails (entry # entries) st =
     (case process_entry onlyDetails entry st of
        (Some e, st') \<Rightarrow> (Some e, st')
      | (None, st') \<Rightarrow> process_entries onlyDetails entries st')"

text \<open>
  The body of the loop over the chunks, lines 149 to 220. \<open>loadPdbs\<close> is the answer of
  the remote service to a list of identifiers (\<open>Inl\<close>: the request or the decoding of
  its answer raised). A response without \<^verbatim>\<open>"data"\<close> skips the rest of the body, the two
  writes included.
\<close>

definition process_chunk ::
  "(string list \<Rightarrow> py_error + json) \<Rightarrow> bool \<Rightarrow> string list \<Rightarrow> state \<Rightarrow> py_error option \<times> state" where
  "process_chunk loadPdbs onlyDetails chunk st0 =
     (let st = st0\<lparr>requests := requests st0 @ [chunk]\<rparr>
      in case loadPdbs chunk of
           Inl e \<Rightarrow> (Some e, st)
         | Inr response \<Rightarrow>
      (case py_contains ''data'' response of
           Inl e \<Rightarrow> (Some e, st)
         | Inr False \<Rightarrow> (None, st)
         | Inr True \<Rightarrow>
      (case and_then (and_then (py_getitem response ''data'')
                        (\<lambda>data. py_getitem data ''entries'')) py_iter of
           Inl e \<Rightarrow> (Some e, st)
         | Inr entries \<Rightarrow>
      (case process_entries onlyDetails entries st of
           (Some e, st') \<Rightarrow> (Some e, st')
         | (None, st') \<Rightarrow> (None, save st')))))"

fun process_chunks ::
  "(string list \<Rightarrow> py_error + json) \<Rightarrow> bool \<Rightarrow> string list list \<Rightarrow> state \<Rightarrow> py_error option \<times> state" where
  "process_chunks loadPdbs onlyDetails [] st = (None, st)"
| "process_chunks loadPdbs onlyDetails (chunk # cs) st =
     (case process_chunk loadPdbs onlyDetails chunk st of
        (Some e, st') \<Rightarrow> (Some e, st')
      | (None, st') \<Rightarrow> process_chunks loadPdbs onlyDetails cs st')"

text \<open>Modelled from the spec: \<^verbatim>\<open>loadStructures\<close> of \<^verbatim>\<open>pdb_crystal_database\<close> and
  \<^verbatim>\<open>loadJson\<close> of \<^verbatim>\<open>misc_functions\<close>, which are not among the sources; the spec has
  them load all records, and the exclusion list, and fail when the file is absent.
  What a load leaves in its global: the list that was reset at lines 116 and 117 when
  the file is not there, the contents of the file otherwise.\<close>

definition file_contents :: "'a list option \<Rightarrow> 'a list" where
  "file_contents f = (case f of None \<Rightarrow> [] | Some xs \<Rightarrow> xs)"

text \<open>Lines 116 to 132: the globals after the two loads.\<close>

definition load :: "state \<Rightarrow> state" where
  "load st = st\<lparr>structureList := file_contents (structures_file st),
                pdbsWithoutDetails := file_contents (without_details_file st),
                resolution_local := None\<rparr>"

text \<open>Lines 125 to 139.\<close>

definition ignoredPdbList :: "bool \<Rightarrow> bool \<Rightarrow> state \<Rightarrow> json list" where
  "ignoredPdbList ignorePdbsWithoutDetails ignoreCompletedPdbs st =
     (if ignorePdbsWithoutDetails then pdbsWithoutDetails st else []) @
     (if ignoreCompletedPdbs then map pdbid (structureList st) else [])"

text \<open>
  Line 142, \<^verbatim>\<open>list(set(pdbList) - set(ignoredPdbList))\<close>. The identifiers of \<open>pdbList\<close>
  are strings. Python leaves the order of a set open: \<open>set_iter\<close> is the order the
  interpreter picks for the elements that remain.
\<close>

definition work_list ::
  "(string list \<Rightarrow> string list) \<Rightarrow> string list \<Rightarrow> json list \<Rightarrow> py_error + string list" where
  "work_list set_iter pdbList ignored =
     (if list_all hashable ignored
      then Inr (set_iter (remdups (filter (\<lambda>p. JStr p \<notin> set ignored) pdbList)))
      else Inl TypeError)"

text \<open>
  Lines 101 to 274. The result is the exception that ended the call, if there is one,
  and the state the call leaves; the list that the source returns is \<open>structureList\<close> of
  that state. There is the one store file, the default of \<^verbatim>\<open>structureFile\<close>; the prints
  and the pause before a request are left out.
\<close>

definition fetchStructures ::
  "(string list \<Rightarrow> py_error + json) \<Rightarrow> (string list \<Rightarrow> string list) \<Rightarrow> string list \<Rightarrow>
   bool \<Rightarrow> bool \<Rightarrow> bool \<Rightarrow> state \<Rightarrow> py_error option \<times> state" where
  "fetchStructures loadPdbs set_iter pdbList onlyDetails ignorePdbsWithoutDetails
       ignoreCompletedPdbs st0 =
     (let st = load st0
      in case work_list set_iter pdbList
                (ignoredPdbList ignorePdbsWithoutDetails ignoreCompletedPdbs st) of
           Inl e \<Rightarrow> (Some e, st)
         | Inr work \<Rightarrow>
      (case chunks work CHUNK_SIZE of
           Inl e \<Rightarrow> (Some e, st)
         | Inr cs \<Rightarrow>
      (case process_chunks loadPdbs onlyDetails cs st of
           (Some e, st') \<Rightarrow> (Some e, st')
         | (None, st') \<Rightarrow> (None, save st'))))"

section \<open>Notions used in the statements\<close>

text \<open>An order of a set lists every element once.\<close>

definition enumerates :: "(string list \<Rightarrow> string list) \<Rightarrow> bool" where
  "enumerates set_iter \<longleftrightarrow>
     (\<forall>xs. distinct xs \<longrightarrow> distinct (set_iter xs) \<and> set (set_iter xs) = set xs)"

text \<open>The records of an identifier in a store and its occurrences in an exclusion list.\<close>

definition records_of :: "json \<Rightarrow> Structure list \<Rightarrow> Structure list" where
  "records_of q sl = filter (\<lambda>s. pdbid s = q) sl"

definition occurrences :: "json \<Rightarrow> json list \<Rightarrow> json list" where
  "occurrences q xs = filter (\<lambda>x. x = q) xs"

text \<open>The entries that the loop of lines 167 to 213 reads from a response: none when
  \<^verbatim>\<open>"data"\<close> is not in it.\<close>

definition response_entries :: "json \<Rightarrow> json list" where
  "response_entries response =
     (case py_contains ''data'' response of
        Inl e \<Rightarrow> []
      | Inr False \<Rightarrow> []
      | Inr True \<Rightarrow>
          (case and_then (and_then (py_getitem response ''data'')
                            (\<lambda>data. py_getitem data ''entries'')) py_iter of
             Inl e \<Rightarrow> []
           | Inr entries \<Rightarrow> entries))"

text \<open>A remote service that answers about the identifiers of the request only.\<close>

definition answers_requested :: "(string list \<Rightarrow> py_error + json) \<Rightarrow> bool" where
  "answers_requested loadPdbs \<longleftrightarrow>
     (\<forall>chunk response. loadPdbs chunk = Inr response \<longrightarrow>
        (\<forall>entry \<in> set (response_entries response). \<forall>p.
           py_getitem entry ''rcsb_id'' = Inr p \<longrightarrow> p \<in> JStr ` set chunk))"

text \<open>The response \<^verbatim>\<open>{"data": {"entries": [...]}}\<close>, and a remote service that holds one
  entry per identifier it knows and answers a request with the entries of the
  identifiers asked for, in the order of the request.\<close>

definition data_response :: "json list \<Rightarrow> json" where
  "data_response entries = JObj [(''data'', JObj [(''entries'', JArr entries)])]"

definition catalog_remote :: "(string \<Rightarrow> json option) \<Rightarrow> string list \<Rightarrow> py_error + json" where
  "catalog_remote catalog chunk = Inr (data_response (List.map_filter catalog chunk))"

definition catalog_ids_match :: "(string \<Rightarrow> json option) \<Rightarrow> bool" where
  "catalog_ids_match catalog \<longleftrightarrow>
     (\<forall>i entry. catalog i = Some entry \<longrightarrow> py_getitem entry ''rcsb_id'' = Inr (JStr i))"

text \<open>The entry has no growth data, or the details of its first growth condition are
  null: the two tests of lines 170 and 177.\<close>

definition lacks_details :: "json \<Rightarrow> bool" where
  "lacks_details entry =
     (case py_getitem entry ''exptl_crystal_grow'' of
        Inl e \<Rightarrow> False
      | Inr grow \<Rightarrow>
          grow = JNull \<or>
          and_then (py_getitem0 grow) (\<lambda>crystalEntry. py_getitem crystalEntry ''pdbx_details'')
            = Inr JNull)"

text \<open>The entry leaves the body of the loop at one of its two \<^verbatim>\<open>continue\<close> statements,
  lines 172 and 180, and no structure is built for it.\<close>

definition takes_continue :: "bool \<Rightarrow> json \<Rightarrow> bool" where
  "takes_continue onlyDetails entry =
     (lacks_details entry \<and>
      (py_getitem entry ''exptl_crystal_grow'' = Inr JNull \<or> onlyDetails))"

text \<open>The identifiers that the entries of a response carry, and those that the answer
  to a request carries.\<close>

definition entry_ids :: "json list \<Rightarrow> json set" where
  "entry_ids entries = {p. \<exists>entry \<in> set entries. py_getitem entry ''rcsb_id'' = Inr p}"

definition chunk_ids :: "(string list \<Rightarrow> py_error + json) \<Rightarrow> string list \<Rightarrow> json set" where
  "chunk_ids loadPdbs chunk =
     (case loadPdbs chunk of
        Inl e \<Rightarrow> {}
      | Inr response \<Rightarrow> entry_ids (response_entries response))"

definition chunks_ids :: "(string list \<Rightarrow> py_error + json) \<Rightarrow> string list list \<Rightarrow> json set" where
  "chunks_ids loadPdbs cs = (\<Union>c \<in> set cs. chunk_ids loadPdbs c)"

text \<open>
  How the two globals may change while entries with identifiers in \<open>T\<close> are processed:
  the exclusion list is extended by identifiers of \<open>T\<close>, the records of the other
  identifiers stay as they are, no identifier leaves the store and only identifiers of
  \<open>T\<close> enter it.
\<close>

definition grows :: "json set \<Rightarrow> state \<Rightarrow> state \<Rightarrow> bool" where
  "grows T st st' \<longleftrightarrow>
     (\<exists>new. pdbsWithoutDetails st' = pdbsWithoutDetails st @ new \<and> set new \<subseteq> T) \<and>
     (\<forall>q. q \<notin> T \<longrightarrow> records_of q (structureList st') = records_of q (structureList st)) \<and>
     pdbid ` set (structureList st) \<subseteq> pdbid ` set (structureList st') \<and>
     pdbid ` set (structureList st') \<subseteq> pdbid ` set (structureList st) \<union> T"

text \<open>The two files hold nothing that the globals do not hold.\<close>

definition files_behind :: "state \<Rightarrow> bool" where
  "files_behind st \<longleftrightarrow>
     set (file_contents (without_details_file st)) \<subseteq> set (pdbsWithoutDetails st) \<and>
     pdbid ` set (file_contents (structures_file st)) \<subseteq> pdbid ` set (structureList st)"

text \<open>For the identifier \<open>q\<close>, the files hold what the globals hold.\<close>

definition synced :: "json \<Rightarrow> state \<Rightarrow> bool" where
  "synced q st \<longleftrightarrow>
     records_of q (file_contents (structures_file st)) = records_of q (structureList st) \<and>
     occurrences q (file_contents (without_details_file st)) =
       occurrences q (pdbsWithoutDetails st)"

section \<open>Example data\<close>

text \<open>Three records, two of them for 1AAA.\<close>

definition rec_a :: Structure where
  "rec_a = \<lparr>pdbid = JStr ''1AAA'', pmcid = JNull, details = JStr ''old'', compounds = [],
            pH = Some 7, temperature = None, crystal_method = JNull, sequences = [],
            resolution = None\<rparr>"

definition rec_b :: Structure where
  "rec_b = \<lparr>pdbid = JStr ''1BBB'', pmcid = JNull, details = JStr ''other'', compounds = [],
            pH = None, temperature = None, crystal_method = JNull, sequences = [],
            resolution = None\<rparr>"

definition rec_a' :: Structure where
  "rec_a' = \<lparr>pdbid = JStr ''1AAA'', pmcid = JNull, details = JStr ''new'', compounds = [],
            pH = None, temperature = None, crystal_method = JNull, sequences = [],
            resolution = Some 2\<rparr>"

text \<open>
  An entry of a response with one growth condition (method "Vapor Diffusion", temp "298",
  pH "7.0"), the given details, resolution list and pubmed value; and an entry whose
  \<^verbatim>\<open>exptl_crystal_grow\<close> is null.
\<close>

definition growth_entry :: "string \<Rightarrow> json \<Rightarrow> json \<Rightarrow> json \<Rightarrow> json" where
  "growth_entry i d res pm =
     JObj [(''rcsb_id'', JStr i),
           (''exptl_crystal_grow'',
              JArr [JObj [(''method'', JStr ''Vapor Diffusion''), (''temp'', JStr ''298''),
                          (''pdbx_details'', d), (''pH'', JStr ''7.0'')]]),
           (''rcsb_entry_info'', JObj [(''resolution_combined'', res)]),
           (''pubmed'', pm)]"

definition no_growth_entry :: "string \<Rightarrow> json" where
  "no_growth_entry i =
     JObj [(''rcsb_id'', JStr i), (''exptl_crystal_grow'', JNull),
           (''rcsb_entry_info'', JObj [(''resolution_combined'', JNull)]),
           (''pubmed'', JNull)]"

text \<open>States before a call: no file yet; a store with one record and an exclusion file
  with 1BBB; an exclusion file with 1AAA.\<close>

definition fresh_state :: state where
  "fresh_state = \<lparr>structureList = [], pdbsWithoutDetails = [], structures_file = None,
                   without_details_file = None, resolution_local = None, requests = []\<rparr>"

definition resumed_state :: state where
  "resumed_state = \<lparr>structureList = [], pdbsWithoutDetails = [],
                     structures_file = Some [rec_a],
                     without_details_file = Some [JStr ''1BBB''],
                     resolution_local = None, requests = []\<rparr>"

text \<open>Entries held by a remote service. The resolution list of 2CCC is null.\<close>

definition stale_catalog :: "string \<Rightarrow> json option" where
  "stale_catalog =
     [''1BBB'' \<mapsto> growth_entry ''1BBB'' (JStr ''PEG 4000'') (JArr [JNum (9 / 5)]) JNull,
      ''2CCC'' \<mapsto> growth_entry ''2CCC'' (JStr ''PEG 8000'') JNull JNull]"

definition excluded_state :: state where
  "excluded_state = \<lparr>structureList = [], pdbsWithoutDetails = [],
                     structures_file = None,
                     without_details_file = Some [JStr ''1AAA''],
                     resolution_local = None, requests = []\<rparr>"

definition no_growth_catalog :: "string \<Rightarrow> json option" where
  "no_growth_catalog = [''1AAA'' \<mapsto> no_growth_entry ''1AAA'']"

definition two_entries :: "json list" where
  "two_entries = [no_growth_entry ''1AAA'',
     growth_entry ''1BBB'' (JStr ''PEG 4000'') (JArr [JNum (9 / 5)]) JNull]"

text \<open>A response that reports an error and has no \<^verbatim>\<open>"data"\<close>.\<close>

definition error_response :: json where
  "error_response = JObj [(''errors'', JArr [JStr ''Request Timeout''])]"

definition two_catalog :: "string \<Rightarrow> json option" where
  "two_catalog =
     [''1AAA'' \<mapsto> no_growth_entry ''1AAA'',
      ''1BBB'' \<mapsto> growth_entry ''1BBB'' (JStr ''PEG 4000'') (JArr [JNum (9 / 5)]) JNull]"

section \<open>The batches of chunks\<close>

lemma chunks_from_concat: "0 < n \<Longrightarrow> concat (chunks_from lst n i) = drop i lst"
proof (induction lst n i rule: chunks_from.induct)
  case (1 lst n i)
  show ?case
  proof (cases "i < length lst")
    case True
    have "take n (drop i lst) @ drop (i + n) lst = drop i lst"
      using append_take_drop_id [of n "drop i lst"] by (simp add: add.commute)
    then show ?thesis using 1 True by (subst chunks_from.simps) simp
  next
    case False
    then show ?thesis by (subst chunks_from.simps) simp
  qed
qed

lemma chunks_from_sizes:
  "0 < n \<Longrightarrow> c \<in> set (chunks_from lst n i) \<Longrightarrow> 0 < length c \<and> length c \<le> n"
proof (induction lst n i rule: chunks_from.induct)
  case (1 lst n i)
  show ?case
  proof (cases "i < length lst")
    case True
    from 1(3) have "c = take n (drop i lst) \<or> c \<in> set (chunks_from lst n (i + n))"
      using True 1(2) by (subst (asm) chunks_from.simps) simp
    then show ?thesis using 1 True by auto
  next
    case False
    then show ?thesis using 1(3) by (subst (asm) chunks_from.simps) simp
  qed
qed

lemma chunks_from_nonempty: "chunks_from lst n i \<noteq> [] \<Longrightarrow> i < length lst"
  using chunks_from.simps [of lst n i] by (auto split: if_splits)

lemma chunks_from_step:
  "0 < n \<Longrightarrow> i < length lst \<Longrightarrow>
   chunks_from lst n i = take n (drop i lst) # chunks_from lst n (i + n)"
  using chunks_from.simps [of lst n i] by simp

lemma chunks_from_full:
  "0 < n \<Longrightarrow> Suc k < length (chunks_from lst n i) \<Longrightarrow> length (chunks_from lst n i ! k) = n"
proof (induction lst n i arbitrary: k rule: chunks_from.induct)
  case (1 lst n i)
  from 1(3) have "chunks_from lst n i \<noteq> []" by auto
  then have True: "i < length lst" by (rule chunks_from_nonempty)
  have eq: "chunks_from lst n i = take n (drop i lst) # chunks_from lst n (i + n)"
    using True 1(2) by (rule chunks_from_step [rotated])
  show ?case
  proof (cases k)
    case 0
    from 1(3) eq have "chunks_from lst n (i + n) \<noteq> []" by auto
    then have "i + n < length lst" by (rule chunks_from_nonempty)
    then show ?thesis using eq 0 by simp
  next
    case (Suc j)
    then show ?thesis using 1 True eq by simp
  qed
qed

lemma distinct_concat_disjoint:
  "distinct (concat cs) \<Longrightarrow> i < length cs \<Longrightarrow> j < length cs \<Longrightarrow> i \<noteq> j \<Longrightarrow>
   set (cs ! i) \<inter> set (cs ! j) = {}"
proof (induction cs arbitrary: i j)
  case Nil
  then show ?case by simp
next
  case (Cons c cs)
  show ?case
  proof (cases i)
    case 0
    then obtain j' where "j = Suc j'" using Cons.prems by (cases j) auto
    then show ?thesis using Cons.prems 0 by (auto dest: nth_mem)
  next
    case (Suc i')
    show ?thesis
    proof (cases j)
      case 0
      then show ?thesis using Cons.prems Suc by (auto dest: nth_mem)
    next
      case (Suc j')
      then show ?thesis using Cons \<open>i = Suc i'\<close> by auto
    qed
  qed
qed

lemma chunks_from_short:
  "0 < n \<Longrightarrow> xs \<noteq> [] \<Longrightarrow> length xs \<le> n \<Longrightarrow> chunks_from xs n 0 = [xs]"
  by (subst chunks_from.simps, subst chunks_from.simps) simp

lemma chunks_from_Nil: "chunks_from [] n i = []"
  by (subst chunks_from.simps) simp


text \<open>
  C3. For every list and every positive batch size \<open>n\<close>, \<open>chunks\<close> returns batches
  whose concatenation is the list (so their union is the work set), that are pairwise
  disjoint when the list has no duplicates, that all have \<open>n\<close> elements except possibly
  the last, and none of which is empty or longer than \<open>n\<close>.
\<close>

theorem chunks_partition:
  "0 < n \<Longrightarrow>
   (\<exists>cs. chunks lst n = Inr cs \<and> concat cs = lst \<and>
      (distinct lst \<longrightarrow>
         (\<forall>i j. i < length cs \<longrightarrow> j < length cs \<longrightarrow> i \<noteq> j \<longrightarrow> set (cs ! i) \<inter> set (cs ! j) = {})) \<and>
      (\<forall>k. Suc k < length cs \<longrightarrow> int (length (cs ! k)) = n) \<and>
      (\<forall>c \<in> set cs. 0 < length c \<and> int (length c) \<le> n))"
proof -
  assume n: "0 < n"
  define cs where "cs = chunks_from lst (nat n) 0"
  have pos: "0 < nat n" using n by simp
  have c: "chunks lst n = Inr cs" using n by (simp add: chunks_def cs_def)
  have cc: "concat cs = lst" using chunks_from_concat [OF pos, of lst 0] by (simp add: cs_def)
  have d: "distinct lst \<longrightarrow>
         (\<forall>i j. i < length cs \<longrightarrow> j < length cs \<longrightarrow> i \<noteq> j \<longrightarrow> set (cs ! i) \<inter> set (cs ! j) = {})"
    using cc distinct_concat_disjoint [of cs] by simp
  have f: "\<forall>k. Suc k < length cs \<longrightarrow> int (length (cs ! k)) = n"
    using chunks_from_full [OF pos, of _ lst 0] n by (simp add: cs_def)
  have s: "\<forall>c \<in> set cs. 0 < length c \<and> int (length c) \<le> n"
    using chunks_from_sizes [OF pos, of _ lst 0] n unfolding cs_def by fastforce
  show ?thesis using c cc d f s by blast
qed

theorem chunks_partition_witness:
  "(0::int) < 2 \<and>
   (\<exists>cs. chunks [1, 2, 3, 4, 5 :: nat] 2 = Inr cs \<and> cs = [[1, 2], [3, 4], [5]])"
  using chunks_partition [of 2 "[1, 2, 3, 4, 5 :: nat]"]
  by (simp add: chunks_def chunks_from.simps)

section \<open>Insertion into the record store\<close>

lemma remove1_filter_key:
  "distinct (map f xs) \<Longrightarrow> t \<in> set xs \<Longrightarrow> remove1 t xs = filter (\<lambda>x. f x \<noteq> f t) xs"
proof (induction xs)
  case Nil
  then show ?case by simp
next
  case (Cons x xs)
  show ?case
  proof (cases "x = t")
    case True
    have "\<forall>y \<in> set xs. f y \<noteq> f t" using Cons.prems(1) True by (auto simp: image_iff)
    then have "filter (\<lambda>x. f x \<noteq> f t) xs = xs" by (simp add: filter_id_conv)
    then show ?thesis using True by simp
  next
    case False
    then have "t \<in> set xs" using Cons.prems(2) by simp
    moreover have "f x \<noteq> f t" using Cons.prems(1) \<open>t \<in> set xs\<close> by (auto simp: image_iff)
    ultimately show ?thesis using Cons False by simp
  qed
qed

lemma getStructure_None: "getStructure sl p = None \<longleftrightarrow> p \<notin> pdbid ` set sl"
  by (auto simp: getStructure_def find_None_iff)

lemma getStructure_Some: "getStructure sl p = Some t \<Longrightarrow> t \<in> set sl \<and> pdbid t = p"
  by (auto simp: getStructure_def find_Some_iff)

text \<open>
  C2. In a store with at most one record per identifier, inserting a record leaves
  exactly the records of the other identifiers, in their order, followed by the new
  record: the prior record of the identifier is gone as a whole and nothing of it is
  merged. The store again has at most one record per identifier, and its size is
  unchanged when the identifier was present.
\<close>

theorem insert_structure_replaces:
  "distinct (map pdbid sl) \<Longrightarrow>
   insert_structure sl s = filter (\<lambda>t. pdbid t \<noteq> pdbid s) sl @ [s] \<and>
   distinct (map pdbid (insert_structure sl s)) \<and>
   (pdbid s \<in> pdbid ` set sl \<longrightarrow> length (insert_structure sl s) = length sl)"
proof -
  assume d: "distinct (map pdbid sl)"
  have eq: "insert_structure sl s = filter (\<lambda>t. pdbid t \<noteq> pdbid s) sl @ [s]"
  proof (cases "getStructure sl (pdbid s)")
    case None
    then have "\<forall>t \<in> set sl. pdbid t \<noteq> pdbid s" by (auto simp: getStructure_None image_iff)
    then have "filter (\<lambda>t. pdbid t \<noteq> pdbid s) sl = sl" by (simp add: filter_id_conv)
    then show ?thesis using None by (simp add: insert_structure_def)
  next
    case (Some t)
    then have t: "t \<in> set sl" "pdbid t = pdbid s" using getStructure_Some by auto
    show ?thesis using Some remove1_filter_key [OF d t(1)] t(2)
      by (simp add: insert_structure_def)
  qed
  have dd: "distinct (map pdbid (insert_structure sl s))"
    unfolding eq using d by (auto simp: distinct_map_filter)
  have len: "pdbid s \<in> pdbid ` set sl \<longrightarrow> length (insert_structure sl s) = length sl"
  proof
    assume "pdbid s \<in> pdbid ` set sl"
    then obtain t where g: "getStructure sl (pdbid s) = Some t"
      using getStructure_None [of sl "pdbid s"] by (cases "getStructure sl (pdbid s)") auto
    then have "t \<in> set sl" using getStructure_Some by auto
    then have "0 < length sl" by (cases sl) auto
    then show "length (insert_structure sl s) = length sl"
      using g \<open>t \<in> set sl\<close> by (simp add: insert_structure_def length_remove1)
  qed
  show ?thesis using eq dd len by blast
qed

theorem insert_structure_replaces_witness:
  "distinct (map pdbid [rec_a, rec_b]) \<and> pdbid rec_a' \<in> pdbid ` set [rec_a, rec_b] \<and>
   insert_structure [rec_a, rec_b] rec_a' = [rec_b, rec_a']"
  using insert_structure_replaces [of "[rec_a, rec_b]" rec_a']
  by (simp add: rec_a_def rec_b_def rec_a'_def)

section \<open>One entry, and the entries of a response\<close>

lemma build_structure_cases:
  assumes "build_structure p d ce e st = (r, st')"
  shows "pdbsWithoutDetails st' = pdbsWithoutDetails st"
    and "structures_file st' = structures_file st"
    and "without_details_file st' = without_details_file st"
    and "requests st' = requests st"
    and "(r \<noteq> None \<and> structureList st' = structureList st) \<or>
         (r = None \<and> (\<exists>s. pdbid s = p \<and>
             structureList st' = insert_structure (structureList st) s))"
proof -
  note defs = build_structure_def Let_def
  show "pdbsWithoutDetails st' = pdbsWithoutDetails st"
    using assms by (auto simp: defs split: sum.splits option.splits)
  show "structures_file st' = structures_file st"
    using assms by (auto simp: defs split: sum.splits option.splits)
  show "without_details_file st' = without_details_file st"
    using assms by (auto simp: defs split: sum.splits option.splits)
  show "requests st' = requests st"
    using assms by (auto simp: defs split: sum.splits option.splits)
  have sel: "\<And>x. pdbid x = p \<Longrightarrow> \<exists>s. pdbid s = p \<and>
      insert_structure (structureList st) x = insert_structure (structureList st) s"
    by blast
  show "(r \<noteq> None \<and> structureList st' = structureList st) \<or>
         (r = None \<and> (\<exists>s. pdbid s = p \<and>
             structureList st' = insert_structure (structureList st) s))"
    using assms by (auto simp: defs split: sum.splits option.splits intro!: sel)
qed

lemma process_entry_cases:
  assumes "process_entry od e st = (r, st')"
  shows "structures_file st' = structures_file st"
    and "without_details_file st' = without_details_file st"
    and "requests st' = requests st"
    and "pdbsWithoutDetails st' = pdbsWithoutDetails st \<or>
         (\<exists>p. py_getitem e ''rcsb_id'' = Inr p \<and>
              pdbsWithoutDetails st' = pdbsWithoutDetails st @ [p])"
    and "structureList st' = structureList st \<or>
         (r = None \<and> (\<exists>s. py_getitem e ''rcsb_id'' = Inr (pdbid s) \<and>
             structureList st' = insert_structure (structureList st) s))"
proof -
  note defs = process_entry_def Let_def
  show "structures_file st' = structures_file st"
    using assms by (auto simp: defs split: sum.splits if_splits dest: build_structure_cases(2))
  show "without_details_file st' = without_details_file st"
    using assms by (auto simp: defs split: sum.splits if_splits dest: build_structure_cases(3))
  show "requests st' = requests st"
    using assms by (auto simp: defs split: sum.splits if_splits dest: build_structure_cases(4))
  show "pdbsWithoutDetails st' = pdbsWithoutDetails st \<or>
         (\<exists>p. py_getitem e ''rcsb_id'' = Inr p \<and>
              pdbsWithoutDetails st' = pdbsWithoutDetails st @ [p])"
    using assms by (auto simp: defs split: sum.splits if_splits dest: build_structure_cases(1))
  show "structureList st' = structureList st \<or>
         (r = None \<and> (\<exists>s. py_getitem e ''rcsb_id'' = Inr (pdbid s) \<and>
             structureList st' = insert_structure (structureList st) s))"
    using assms by (auto simp: defs split: sum.splits if_splits dest!: build_structure_cases(5))
qed

lemma filter_remove1_other: "\<not> P t \<Longrightarrow> filter P (remove1 t xs) = filter P xs"
  by (induction xs) auto

lemma insert_structure_records_of:
  "q \<noteq> pdbid s \<Longrightarrow> records_of q (insert_structure sl s) = records_of q sl"
proof (cases "getStructure sl (pdbid s)")
  case None
  assume "q \<noteq> pdbid s"
  then show ?thesis using None by (simp add: insert_structure_def records_of_def)
next
  case (Some t)
  assume q: "q \<noteq> pdbid s"
  from Some have "pdbid t = pdbid s" by (auto simp: getStructure_def find_Some_iff)
  then have "\<not> (pdbid t = q)" using q by simp
  then have "filter (\<lambda>s. pdbid s = q) (remove1 t sl) = filter (\<lambda>s. pdbid s = q) sl"
    by (rule filter_remove1_other)
  then show ?thesis using Some q by (simp add: insert_structure_def records_of_def)
qed

lemma image_remove1_key:
  "t \<in> set xs \<Longrightarrow> insert (f t) (f ` set (remove1 t xs)) = f ` set xs"
proof (induction xs)
  case Nil
  then show ?case by simp
next
  case (Cons x xs)
  then show ?case by (cases "x = t") auto
qed

lemma insert_structure_ids:
  "pdbid ` set (insert_structure sl s) = insert (pdbid s) (pdbid ` set sl)"
proof (cases "getStructure sl (pdbid s)")
  case None
  then show ?thesis by (simp add: insert_structure_def)
next
  case (Some t)
  then have t: "t \<in> set sl" "pdbid t = pdbid s"
    by (auto simp: getStructure_def find_Some_iff)
  have "insert (pdbid t) (pdbid ` set (remove1 t sl)) = pdbid ` set sl"
    using t(1) by (rule image_remove1_key)
  then show ?thesis using Some t(2) by (auto simp: insert_structure_def)
qed

lemma grows_refl: "grows T st st"
  by (simp add: grows_def)

lemma grows_mono:
  assumes "T \<subseteq> T'" and "grows T st st'"
  shows "grows T' st st'"
proof -
  from assms(2) obtain new where
    "pdbsWithoutDetails st' = pdbsWithoutDetails st @ new" "set new \<subseteq> T"
    unfolding grows_def by blast
  then have a: "\<exists>new. pdbsWithoutDetails st' = pdbsWithoutDetails st @ new \<and> set new \<subseteq> T'"
    using assms(1) by (intro exI [of _ new]) auto
  have b: "\<forall>q. q \<notin> T' \<longrightarrow> records_of q (structureList st') = records_of q (structureList st)"
    using assms unfolding grows_def by (meson subsetD)
  have c: "pdbid ` set (structureList st) \<subseteq> pdbid ` set (structureList st')"
    using assms(2) unfolding grows_def by simp
  have "pdbid ` set (structureList st') \<subseteq> pdbid ` set (structureList st) \<union> T"
    using assms(2) unfolding grows_def by simp
  then have d: "pdbid ` set (structureList st') \<subseteq> pdbid ` set (structureList st) \<union> T'"
    using assms(1) by (meson Un_mono order_refl order_trans)
  show ?thesis unfolding grows_def using a b c d by (intro conjI)
qed

lemma grows_trans:
  assumes "grows T st st'" and "grows T st' st''"
  shows "grows T st st''"
proof -
  from assms(1) obtain n1 where n1:
    "pdbsWithoutDetails st' = pdbsWithoutDetails st @ n1" "set n1 \<subseteq> T"
    unfolding grows_def by blast
  from assms(2) obtain n2 where n2:
    "pdbsWithoutDetails st'' = pdbsWithoutDetails st' @ n2" "set n2 \<subseteq> T"
    unfolding grows_def by blast
  have a: "\<exists>new. pdbsWithoutDetails st'' = pdbsWithoutDetails st @ new \<and> set new \<subseteq> T"
    using n1 n2 by (intro exI [of _ "n1 @ n2"]) simp
  have b1: "\<forall>q. q \<notin> T \<longrightarrow> records_of q (structureList st') = records_of q (structureList st)"
    using assms(1) unfolding grows_def by simp
  have b2: "\<forall>q. q \<notin> T \<longrightarrow> records_of q (structureList st'') = records_of q (structureList st')"
    using assms(2) unfolding grows_def by simp
  have b: "\<forall>q. q \<notin> T \<longrightarrow> records_of q (structureList st'') = records_of q (structureList st)"
    using b1 b2 by simp
  have c1: "pdbid ` set (structureList st) \<subseteq> pdbid ` set (structureList st')"
    and d1: "pdbid ` set (structureList st') \<subseteq> pdbid ` set (structureList st) \<union> T"
    using assms(1) unfolding grows_def by simp_all
  have c2: "pdbid ` set (structureList st') \<subseteq> pdbid ` set (structureList st'')"
    and d2: "pdbid ` set (structureList st'') \<subseteq> pdbid ` set (structureList st') \<union> T"
    using assms(2) unfolding grows_def by simp_all
  have c: "pdbid ` set (structureList st) \<subseteq> pdbid ` set (structureList st'')"
    using c1 c2 by (rule order_trans)
  have d: "pdbid ` set (structureList st'') \<subseteq> pdbid ` set (structureList st) \<union> T"
    using d1 d2 by (meson Un_least Un_upper2 order_trans)
  show ?thesis unfolding grows_def using a b c d by (intro conjI)
qed

lemma grows_fields:
  "pdbsWithoutDetails a = pdbsWithoutDetails b \<Longrightarrow> structureList a = structureList b \<Longrightarrow>
   grows T st a = grows T st b"
  "pdbsWithoutDetails a = pdbsWithoutDetails b \<Longrightarrow> structureList a = structureList b \<Longrightarrow>
   grows T a st = grows T b st"
  by (simp_all add: grows_def)

lemma entry_ids_single: "p \<in> entry_ids [e] \<longleftrightarrow> py_getitem e ''rcsb_id'' = Inr p"
  by (simp add: entry_ids_def)

lemma process_entry_grows:
  assumes "process_entry od e st = (r, st')"
  shows "grows (entry_ids [e]) st st'"
proof -
  let ?T = "entry_ids [e]"
  have a: "\<exists>new. pdbsWithoutDetails st' = pdbsWithoutDetails st @ new \<and> set new \<subseteq> ?T"
  proof -
    from process_entry_cases(4) [OF assms] show ?thesis
    proof
      assume "pdbsWithoutDetails st' = pdbsWithoutDetails st"
      then show ?thesis by (intro exI [of _ "[]"]) simp
    next
      assume "\<exists>p. py_getitem e ''rcsb_id'' = Inr p \<and>
                pdbsWithoutDetails st' = pdbsWithoutDetails st @ [p]"
      then obtain p where p: "py_getitem e ''rcsb_id'' = Inr p"
        "pdbsWithoutDetails st' = pdbsWithoutDetails st @ [p]" by blast
      have "set [p] \<subseteq> ?T" using p(1) by (simp add: entry_ids_single)
      with p(2) show ?thesis by (intro exI [of _ "[p]"] conjI)
    qed
  qed
  from process_entry_cases(5) [OF assms]
  have b: "(\<forall>q. q \<notin> ?T \<longrightarrow> records_of q (structureList st') = records_of q (structureList st)) \<and>
     pdbid ` set (structureList st) \<subseteq> pdbid ` set (structureList st') \<and>
     pdbid ` set (structureList st') \<subseteq> pdbid ` set (structureList st) \<union> ?T"
  proof
    assume "structureList st' = structureList st"
    then show ?thesis by simp
  next
    assume "r = None \<and> (\<exists>s. py_getitem e ''rcsb_id'' = Inr (pdbid s) \<and>
             structureList st' = insert_structure (structureList st) s)"
    then obtain s where s: "py_getitem e ''rcsb_id'' = Inr (pdbid s)"
      "structureList st' = insert_structure (structureList st) s" by blast
    have sT: "pdbid s \<in> ?T" using s(1) by (simp add: entry_ids_single)
    have b1: "\<forall>q. q \<notin> ?T \<longrightarrow> records_of q (structureList st') = records_of q (structureList st)"
    proof (intro allI impI)
      fix q assume "q \<notin> ?T"
      then have "q \<noteq> pdbid s" using sT by blast
      then show "records_of q (structureList st') = records_of q (structureList st)"
        unfolding s(2) by (rule insert_structure_records_of)
    qed
    have ids: "pdbid ` set (structureList st') = insert (pdbid s) (pdbid ` set (structureList st))"
      unfolding s(2) by (rule insert_structure_ids)
    have b2: "pdbid ` set (structureList st) \<subseteq> pdbid ` set (structureList st')"
      unfolding ids by (rule subset_insertI)
    have b3: "pdbid ` set (structureList st') \<subseteq> pdbid ` set (structureList st) \<union> ?T"
      unfolding ids using sT by simp
    show ?thesis using b1 b2 b3 by (intro conjI)
  qed
  show ?thesis unfolding grows_def using a b by (intro conjI) simp_all
qed

lemma entry_ids_Cons: "entry_ids (e # es) = entry_ids [e] \<union> entry_ids es"
  by (auto simp: entry_ids_def)

lemma process_entries_Cons:
  assumes "process_entries od (e # es) st = (r, st')"
  obtains r1 where "r1 \<noteq> None" "process_entry od e st = (r1, st')" "r = r1"
  | st1 where "process_entry od e st = (None, st1)" "process_entries od es st1 = (r, st')"
  using assms by (cases "process_entry od e st") (auto split: option.splits)

lemma process_entries_grows:
  "process_entries od es st = (r, st') \<Longrightarrow> grows (entry_ids es) st st'"
proof (induction es arbitrary: st)
  case Nil
  then show ?case by (simp add: grows_refl)
next
  case (Cons e es)
  have sub: "entry_ids [e] \<subseteq> entry_ids (e # es)" "entry_ids es \<subseteq> entry_ids (e # es)"
    using entry_ids_Cons [of e es] by blast+
  from Cons.prems show ?case
  proof (cases rule: process_entries_Cons)
    case (1 r1)
    from process_entry_grows [OF 1(2)] show ?thesis by (rule grows_mono [OF sub(1)])
  next
    case (2 st1)
    have "grows (entry_ids (e # es)) st st1"
      using process_entry_grows [OF 2(1)] by (rule grows_mono [OF sub(1)])
    moreover have "grows (entry_ids (e # es)) st1 st'"
      using Cons.IH [OF 2(2)] by (rule grows_mono [OF sub(2)])
    ultimately show ?thesis by (rule grows_trans)
  qed
qed

lemma process_entries_frame:
  "process_entries od es st = (r, st') \<Longrightarrow>
   structures_file st' = structures_file st \<and>
   without_details_file st' = without_details_file st \<and> requests st' = requests st"
proof (induction es arbitrary: st)
  case Nil
  then show ?case by simp
next
  case (Cons e es)
  from Cons.prems show ?case
  proof (cases rule: process_entries_Cons)
    case (1 r1)
    then show ?thesis using process_entry_cases(1-3) [OF 1(2)] by simp
  next
    case (2 st1)
    then show ?thesis using process_entry_cases(1-3) [OF 2(1)] Cons.IH [OF 2(2)] by simp
  qed
qed

section \<open>One batch, and the loop over the batches\<close>

lemma grows_occurrences:
  assumes "grows T st st'" and "q \<notin> T"
  shows "occurrences q (pdbsWithoutDetails st') = occurrences q (pdbsWithoutDetails st)"
proof -
  from assms(1) obtain new where n:
    "pdbsWithoutDetails st' = pdbsWithoutDetails st @ new" "set new \<subseteq> T"
    unfolding grows_def by blast
  have "q \<notin> set new" using n(2) assms(2) by blast
  then have "filter (\<lambda>x. x = q) new = []" by (auto simp: filter_empty_conv)
  then show ?thesis using n(1) by (simp add: occurrences_def)
qed

lemma grows_records:
  "grows T st st' \<Longrightarrow> q \<notin> T \<Longrightarrow>
   records_of q (structureList st') = records_of q (structureList st)"
  unfolding grows_def by simp

lemma grows_excl_subset:
  assumes "grows T st st'"
  shows "set (pdbsWithoutDetails st) \<subseteq> set (pdbsWithoutDetails st')"
    and "set (pdbsWithoutDetails st') \<subseteq> set (pdbsWithoutDetails st) \<union> T"
proof -
  from assms obtain new where n:
    "pdbsWithoutDetails st' = pdbsWithoutDetails st @ new" "set new \<subseteq> T"
    unfolding grows_def by blast
  show "set (pdbsWithoutDetails st) \<subseteq> set (pdbsWithoutDetails st')" using n(1) by simp
  show "set (pdbsWithoutDetails st') \<subseteq> set (pdbsWithoutDetails st) \<union> T"
    using n by auto
qed

lemma grows_ids_subset:
  assumes "grows T st st'"
  shows "pdbid ` set (structureList st) \<subseteq> pdbid ` set (structureList st')"
    and "pdbid ` set (structureList st') \<subseteq> pdbid ` set (structureList st) \<union> T"
  using assms unfolding grows_def by simp_all

lemma grows_save: "grows T st (save st') = grows T st st'"
  by (rule grows_fields) (simp_all add: save_def)

lemma files_behind_save: "files_behind (save st)"
  by (simp add: files_behind_def save_def file_contents_def)

lemma synced_save: "synced q (save st)"
  by (simp add: synced_def save_def file_contents_def)

lemma files_behind_load: "files_behind (load st)"
  by (simp add: files_behind_def load_def)

lemma synced_load: "synced q (load st)"
  by (simp add: synced_def load_def)

lemma files_behind_grows:
  assumes "files_behind st" and "grows T st st'"
    and "structures_file st' = structures_file st"
    and "without_details_file st' = without_details_file st"
  shows "files_behind st'"
proof -
  have "set (file_contents (without_details_file st')) \<subseteq> set (pdbsWithoutDetails st')"
    using assms(1) grows_excl_subset(1) [OF assms(2)] assms(4)
    unfolding files_behind_def by (metis order_trans)
  moreover have "pdbid ` set (file_contents (structures_file st')) \<subseteq> pdbid ` set (structureList st')"
    using assms(1) grows_ids_subset(1) [OF assms(2)] assms(3)
    unfolding files_behind_def by (metis order_trans)
  ultimately show ?thesis unfolding files_behind_def by (intro conjI)
qed

lemma synced_grows:
  assumes "synced q st" and "grows T st st'" and "q \<notin> T"
    and "structures_file st' = structures_file st"
    and "without_details_file st' = without_details_file st"
  shows "synced q st'"
  using assms(1) grows_records [OF assms(2,3)] grows_occurrences [OF assms(2,3)] assms(4,5)
  unfolding synced_def by simp

lemma process_chunk_cases:
  assumes "process_chunk loadPdbs od c st = (r, st')"
  obtains (skipped) "st' = st\<lparr>requests := requests st @ [c]\<rparr>"
      "chunk_ids loadPdbs c = {} \<or> r \<noteq> None"
  | (failed) response r1 where "loadPdbs c = Inr response" "r1 \<noteq> None" "r = r1"
      "process_entries od (response_entries response) (st\<lparr>requests := requests st @ [c]\<rparr>)
         = (r1, st')"
  | (saved) response st1 where "loadPdbs c = Inr response" "r = None" "st' = save st1"
      "process_entries od (response_entries response) (st\<lparr>requests := requests st @ [c]\<rparr>)
         = (None, st1)"
proof (cases "loadPdbs c")
  case (Inl e)
  then have "st' = st\<lparr>requests := requests st @ [c]\<rparr>" "r \<noteq> None"
    using assms by (auto simp: process_chunk_def Let_def)
  then show ?thesis using skipped by blast
next
  case (Inr response)
  show ?thesis
  proof (cases "py_contains ''data'' response")
    case (Inl e)
    then have "st' = st\<lparr>requests := requests st @ [c]\<rparr>" "r \<noteq> None"
      using assms Inr by (auto simp: process_chunk_def Let_def)
    then show ?thesis using skipped by blast
  next
    case has: (Inr b)
    show ?thesis
    proof (cases b)
      case False
      then have "st' = st\<lparr>requests := requests st @ [c]\<rparr>"
        using assms Inr has by (auto simp: process_chunk_def Let_def)
      moreover have "chunk_ids loadPdbs c = {}"
        using Inr has False by (simp add: chunk_ids_def response_entries_def entry_ids_def)
      ultimately show ?thesis using skipped by blast
    next
      case True
      show ?thesis
      proof (cases "and_then (and_then (py_getitem response ''data'')
                        (\<lambda>data. py_getitem data ''entries'')) py_iter")
        case (Inl e)
        then have "st' = st\<lparr>requests := requests st @ [c]\<rparr>" "r \<noteq> None"
          using assms Inr has True by (auto simp: process_chunk_def Let_def)
        then show ?thesis using skipped by blast
      next
        case es: (Inr entries)
        have re: "response_entries response = entries"
          using has True es by (simp add: response_entries_def)
        obtain r1 st1 where pe:
          "process_entries od entries (st\<lparr>requests := requests st @ [c]\<rparr>) = (r1, st1)"
          by (cases "process_entries od entries (st\<lparr>requests := requests st @ [c]\<rparr>)")
        show ?thesis
        proof (cases r1)
          case None
          then have "r = None" "st' = save st1"
            using assms Inr has True es pe by (auto simp: process_chunk_def Let_def)
          then show ?thesis using saved [of response st1] Inr pe None re by simp
        next
          case (Some err)
          then have "r = r1" "st' = st1"
            using assms Inr has True es pe by (auto simp: process_chunk_def Let_def)
          then show ?thesis using failed [of response r1] Inr pe Some re by simp
        qed
      qed
    qed
  qed
qed

lemma grows_requests: "grows T (st\<lparr>requests := x\<rparr>) st' = grows T st st'"
  by (rule grows_fields) simp_all

lemma process_chunk_inv:
  assumes "process_chunk loadPdbs od c st = (r, st')"
  shows "requests st' = requests st @ [c]"
    and "grows (chunk_ids loadPdbs c) st st'"
    and "files_behind st \<Longrightarrow> files_behind st'"
    and "synced q st \<Longrightarrow> q \<notin> chunk_ids loadPdbs c \<Longrightarrow> synced q st'"
proof -
  let ?st = "st\<lparr>requests := requests st @ [c]\<rparr>"
  let ?T = "chunk_ids loadPdbs c"
  have fb: "files_behind st \<Longrightarrow> files_behind ?st" by (simp add: files_behind_def)
  have sy: "synced q st \<Longrightarrow> synced q ?st" by (simp add: synced_def)
  from assms show "requests st' = requests st @ [c]"
  proof (cases rule: process_chunk_cases)
    case skipped
    then show ?thesis by simp
  next
    case (failed response r1)
    then show ?thesis using process_entries_frame [OF failed(4)] by simp
  next
    case (saved response st1)
    then show ?thesis using process_entries_frame [OF saved(4)] by (simp add: save_def)
  qed
  from assms show g: "grows ?T st st'"
  proof (cases rule: process_chunk_cases)
    case skipped
    have "grows ?T st ?st" by (subst grows_fields(1) [of _ st]) (simp_all add: grows_refl)
    then show ?thesis using skipped(1) by simp
  next
    case (failed response r1)
    have "?T = entry_ids (response_entries response)" using failed(1) by (simp add: chunk_ids_def)
    then show ?thesis using process_entries_grows [OF failed(4)] by (simp add: grows_requests)
  next
    case (saved response st1)
    have "?T = entry_ids (response_entries response)" using saved(1) by (simp add: chunk_ids_def)
    then show ?thesis using process_entries_grows [OF saved(4)] saved(3)
      by (simp add: grows_requests grows_save)
  qed
  {
    assume a: "files_behind st"
    from assms show "files_behind st'"
    proof (cases rule: process_chunk_cases)
      case skipped
      then show ?thesis using fb [OF a] by simp
    next
      case (failed response r1)
      show ?thesis
        using fb [OF a] process_entries_grows [OF failed(4)] process_entries_frame [OF failed(4)]
        by (intro files_behind_grows [of ?st _ st']) simp_all
    next
      case (saved response st1)
      then show ?thesis by (simp add: files_behind_save)
    qed
  }
  {
    assume a: "synced q st" and q: "q \<notin> ?T"
    from assms show "synced q st'"
    proof (cases rule: process_chunk_cases)
      case skipped
      then show ?thesis using sy [OF a] by simp
    next
      case (failed response r1)
      have "?T = entry_ids (response_entries response)" using failed(1) by (simp add: chunk_ids_def)
      then have "q \<notin> entry_ids (response_entries response)" using q by simp
      then show ?thesis
        using sy [OF a] process_entries_grows [OF failed(4)] process_entries_frame [OF failed(4)]
        by (intro synced_grows [of q ?st _ st']) simp_all
    next
      case (saved response st1)
      then show ?thesis by (simp add: synced_save)
    qed
  }
qed

lemma process_chunks_Cons:
  assumes "process_chunks loadPdbs od (c # cs) st = (r, st')"
  obtains r1 where "r1 \<noteq> None" "process_chunk loadPdbs od c st = (r1, st')" "r = r1"
  | st1 where "process_chunk loadPdbs od c st = (None, st1)"
      "process_chunks loadPdbs od cs st1 = (r, st')"
  using assms by (cases "process_chunk loadPdbs od c st") (auto split: option.splits)

lemma process_chunks_requests:
  "process_chunks loadPdbs od cs st = (r, st') \<Longrightarrow>
   \<exists>new. requests st' = requests st @ new \<and> set new \<subseteq> set cs"
proof (induction cs arbitrary: st)
  case Nil
  then show ?case by simp
next
  case (Cons c cs)
  from Cons.prems show ?case
  proof (cases rule: process_chunks_Cons)
    case (1 r1)
    have "requests st' = requests st @ [c]" using process_chunk_inv(1) [OF 1(2)] .
    then show ?thesis by (intro exI [of _ "[c]"]) simp
  next
    case (2 st1)
    have r1: "requests st1 = requests st @ [c]" using process_chunk_inv(1) [OF 2(1)] .
    from Cons.IH [OF 2(2)] obtain new where n: "requests st' = requests st1 @ new"
      "set new \<subseteq> set cs" by blast
    show ?thesis using r1 n by (intro exI [of _ "c # new"]) auto
  qed
qed

lemma chunks_ids_Cons:
  "chunk_ids loadPdbs c \<subseteq> chunks_ids loadPdbs (c # cs)"
  "chunks_ids loadPdbs cs \<subseteq> chunks_ids loadPdbs (c # cs)"
  by (auto simp: chunks_ids_def)

lemma process_chunks_grows:
  "process_chunks loadPdbs od cs st = (r, st') \<Longrightarrow> grows (chunks_ids loadPdbs cs) st st'"
proof (induction cs arbitrary: st)
  case Nil
  then show ?case by (simp add: grows_refl)
next
  case (Cons c cs)
  from Cons.prems show ?case
  proof (cases rule: process_chunks_Cons)
    case (1 r1)
    from process_chunk_inv(2) [OF 1(2)] show ?thesis by (rule grows_mono [OF chunks_ids_Cons(1)])
  next
    case (2 st1)
    have "grows (chunks_ids loadPdbs (c # cs)) st st1"
      using process_chunk_inv(2) [OF 2(1)] by (rule grows_mono [OF chunks_ids_Cons(1)])
    moreover have "grows (chunks_ids loadPdbs (c # cs)) st1 st'"
      using Cons.IH [OF 2(2)] by (rule grows_mono [OF chunks_ids_Cons(2)])
    ultimately show ?thesis by (rule grows_trans)
  qed
qed

lemma process_chunks_files_behind:
  "process_chunks loadPdbs od cs st = (r, st') \<Longrightarrow> files_behind st \<Longrightarrow> files_behind st'"
proof (induction cs arbitrary: st)
  case Nil
  then show ?case by simp
next
  case (Cons c cs)
  from Cons.prems(1) show ?case
  proof (cases rule: process_chunks_Cons)
    case (1 r1)
    show ?thesis using process_chunk_inv(3) [OF 1(2) Cons.prems(2)] .
  next
    case (2 st1)
    have "files_behind st1" using process_chunk_inv(3) [OF 2(1) Cons.prems(2)] .
    with Cons.IH [OF 2(2)] show ?thesis .
  qed
qed

lemma process_chunks_synced:
  "process_chunks loadPdbs od cs st = (r, st') \<Longrightarrow> synced q st \<Longrightarrow>
   q \<notin> chunks_ids loadPdbs cs \<Longrightarrow> synced q st'"
proof (induction cs arbitrary: st)
  case Nil
  then show ?case by simp
next
  case (Cons c cs)
  have q1: "q \<notin> chunk_ids loadPdbs c" and q2: "q \<notin> chunks_ids loadPdbs cs"
    using Cons.prems(3) by (auto simp: chunks_ids_def)
  from Cons.prems(1) show ?case
  proof (cases rule: process_chunks_Cons)
    case (1 r1)
    show ?thesis using process_chunk_inv(4) [OF 1(2) Cons.prems(2) q1] .
  next
    case (2 st1)
    have "synced q st1" using process_chunk_inv(4) [OF 2(1) Cons.prems(2) q1] .
    with Cons.IH [OF 2(2)] q2 show ?thesis by blast
  qed
qed

section \<open>A call of fetchStructures\<close>

lemma chunks_CHUNK_SIZE: "chunks work CHUNK_SIZE = Inr (chunks_from work 1000 0)"
  by (simp add: chunks_def CHUNK_SIZE_def)

lemma chunks_from_subset: "c \<in> set (chunks_from ws 1000 0) \<Longrightarrow> set c \<subseteq> set ws"
proof -
  assume c: "c \<in> set (chunks_from ws 1000 0)"
  have "concat (chunks_from ws 1000 0) = ws"
    using chunks_from_concat [of 1000 ws 0] by simp
  then have "set ws = (\<Union>x \<in> set (chunks_from ws 1000 0). set x)" by (metis set_concat)
  then show ?thesis using c by blast
qed

lemma work_list_Inr:
  assumes "enumerates set_iter" and "work_list set_iter pdbList ign = Inr ws"
  shows "distinct ws" and "set ws = {i \<in> set pdbList. JStr i \<notin> set ign}"
    and "list_all hashable ign"
proof -
  let ?xs = "remdups (filter (\<lambda>p. JStr p \<notin> set ign) pdbList)"
  from assms(2) have h: "list_all hashable ign" and ws: "ws = set_iter ?xs"
    by (auto simp: work_list_def split: if_splits)
  have "distinct ?xs" by simp
  then have "distinct (set_iter ?xs) \<and> set (set_iter ?xs) = set ?xs"
    using assms(1) unfolding enumerates_def by blast
  then show "distinct ws" and "set ws = {i \<in> set pdbList. JStr i \<notin> set ign}"
    using ws by auto
  show "list_all hashable ign" by (rule h)
qed

lemma work_list_Inl:
  "work_list set_iter pdbList ign = Inl e \<Longrightarrow> e = TypeError \<and> \<not> list_all hashable ign"
  by (auto simp: work_list_def split: if_splits)

lemma fetchStructures_cases:
  assumes "fetchStructures loadPdbs set_iter pdbList od iwd ic st0 = (r, st')"
  obtains (unhashable) e where
      "work_list set_iter pdbList (ignoredPdbList iwd ic (load st0)) = Inl e"
      "r = Some e" "st' = load st0"
  | (failed) work r1 where
      "work_list set_iter pdbList (ignoredPdbList iwd ic (load st0)) = Inr work"
      "process_chunks loadPdbs od (chunks_from work 1000 0) (load st0) = (r1, st')"
      "r1 \<noteq> None" "r = r1"
  | (finished) work st1 where
      "work_list set_iter pdbList (ignoredPdbList iwd ic (load st0)) = Inr work"
      "process_chunks loadPdbs od (chunks_from work 1000 0) (load st0) = (None, st1)"
      "r = None" "st' = save st1"
proof (cases "work_list set_iter pdbList (ignoredPdbList iwd ic (load st0))")
  case (Inl e)
  then have "r = Some e" "st' = load st0"
    using assms by (auto simp: fetchStructures_def Let_def)
  then show ?thesis using unhashable Inl by blast
next
  case (Inr work)
  obtain r1 st1 where pc:
    "process_chunks loadPdbs od (chunks_from work 1000 0) (load st0) = (r1, st1)"
    by (cases "process_chunks loadPdbs od (chunks_from work 1000 0) (load st0)")
  show ?thesis
  proof (cases r1)
    case None
    then have "r = None" "st' = save st1"
      using assms Inr pc by (auto simp: fetchStructures_def Let_def chunks_CHUNK_SIZE)
    then show ?thesis using finished [of work st1] Inr pc None by simp
  next
    case (Some err)
    then have "r = r1" "st' = st1"
      using assms Inr pc by (auto simp: fetchStructures_def Let_def chunks_CHUNK_SIZE)
    then show ?thesis using failed [of work r1] Inr pc Some by simp
  qed
qed

lemma ignored_set:
  "set (ignoredPdbList iwd ic (load st)) =
     (if iwd then set (file_contents (without_details_file st)) else {}) \<union>
     (if ic then pdbid ` set (file_contents (structures_file st)) else {})"
  by (simp add: ignoredPdbList_def load_def)

text \<open>The definitions that a run on concrete data unfolds.\<close>

lemmas eval_defs = fetchStructures_def load_def work_list_def ignoredPdbList_def file_contents_def
  chunks_CHUNK_SIZE chunks_from_short chunks_from_Nil process_chunk_def catalog_remote_def
  data_response_def and_then_def or_none_def List.map_filter_def save_def
  process_entry_def build_structure_def extract_pmcid_def extract_resolution_def
  insert_structure_def getStructure_def float_str_def digit_of_def Let_def

text \<open>
  C4. For every universe \<open>pdbList\<close> and every combination of the two skip options, the
  work list of line 142 has no duplicates and its elements are those of the universe
  minus the identifiers of the stored records, when \<open>ignoreCompletedPdbs\<close> (here \<open>ic\<close>)
  is true, and minus the identifiers of the exclusion file, when
  \<open>ignorePdbsWithoutDetails\<close> (here \<open>iwd\<close>) is true; with \<open>ic\<close> false the store does not
  shrink it. The only other outcome is the TypeError of \<^verbatim>\<open>set\<close> on an ignored identifier
  that is a list or a dict.
\<close>

theorem work_set_is_difference:
  "enumerates set_iter \<Longrightarrow>
   (case work_list set_iter pdbList (ignoredPdbList iwd ic (load st)) of
      Inr work \<Rightarrow>
        distinct work \<and>
        set work = set pdbList -
          ({i. ic \<and> JStr i \<in> pdbid ` set (file_contents (structures_file st))} \<union>
           {i. iwd \<and> JStr i \<in> set (file_contents (without_details_file st))})
    | Inl e \<Rightarrow> e = TypeError \<and> \<not> list_all hashable (ignoredPdbList iwd ic (load st)))"
proof -
  assume en: "enumerates set_iter"
  show ?thesis
  proof (cases "work_list set_iter pdbList (ignoredPdbList iwd ic (load st))")
    case (Inl e)
    then show ?thesis using work_list_Inl [OF Inl] by simp
  next
    case (Inr work)
    have "set work = {i \<in> set pdbList. JStr i \<notin> set (ignoredPdbList iwd ic (load st))}"
      using work_list_Inr(2) [OF en Inr] .
    then have "set work = set pdbList -
          ({i. ic \<and> JStr i \<in> pdbid ` set (file_contents (structures_file st))} \<union>
           {i. iwd \<and> JStr i \<in> set (file_contents (without_details_file st))})"
      unfolding ignored_set by auto
    then show ?thesis using Inr work_list_Inr(1) [OF en Inr] by simp
  qed
qed

theorem work_set_is_difference_witness:
  "enumerates (\<lambda>xs. xs) \<and>
   work_list (\<lambda>xs. xs) [''1AAA'', ''1BBB'', ''1CCC'']
     (ignoredPdbList True True (load resumed_state)) = Inr [''1CCC''] \<and>
   work_list (\<lambda>xs. xs) [''1AAA'', ''1BBB'', ''1CCC'']
     (ignoredPdbList True False (load resumed_state)) = Inr [''1AAA'', ''1CCC'']"
proof -
  have e: "enumerates (\<lambda>xs. xs)" by (simp add: enumerates_def)
  show ?thesis
    using e
      work_set_is_difference [OF e, where pdbList = "[''1AAA'', ''1BBB'', ''1CCC'']"
        and iwd = True and ic = True and st = resumed_state]
      work_set_is_difference [OF e, where pdbList = "[''1AAA'', ''1BBB'', ''1CCC'']"
        and iwd = True and ic = False and st = resumed_state]
    by (simp add: work_list_def ignoredPdbList_def load_def file_contents_def
        resumed_state_def rec_a_def)
qed

text \<open>
  C7. With \<open>ignorePdbsWithoutDetails\<close> true, an identifier that the exclusion file holds
  at the start of a call is in none of the batches that the call sends to the remote
  service.
\<close>

theorem excluded_never_requested:
  assumes "enumerates set_iter"
    and "without_details_file st = Some excl" and "JStr i \<in> set excl"
    and "fetchStructures loadPdbs set_iter pdbList od True ic st = (r, st')"
  shows "\<exists>new. requests st' = requests st @ new \<and> (\<forall>c \<in> set new. i \<notin> set c)"
proof -
  have ign: "JStr i \<in> set (ignoredPdbList True ic (load st))"
    unfolding ignored_set using assms(2,3) by (simp add: file_contents_def)
  have rl: "requests (load st) = requests st" by (simp add: load_def)
  {
    fix work r1 st1
    assume w: "work_list set_iter pdbList (ignoredPdbList True ic (load st)) = Inr work"
      and pc: "process_chunks loadPdbs od (chunks_from work 1000 0) (load st) = (r1, st1)"
    have "i \<notin> set work" using work_list_Inr(2) [OF assms(1) w] ign by simp
    from process_chunks_requests [OF pc] obtain new where
      n: "requests st1 = requests st @ new" "set new \<subseteq> set (chunks_from work 1000 0)"
      using rl by auto
    have "\<forall>c \<in> set new. i \<notin> set c"
    proof
      fix c assume "c \<in> set new"
      then have "set c \<subseteq> set work" using n(2) chunks_from_subset by blast
      then show "i \<notin> set c" using \<open>i \<notin> set work\<close> by blast
    qed
    then have "\<exists>new. requests st1 = requests st @ new \<and> (\<forall>c \<in> set new. i \<notin> set c)"
      using n(1) by blast
  } note main = this
  from assms(4) show ?thesis
  proof (cases rule: fetchStructures_cases)
    case (unhashable e)
    then show ?thesis using rl by (intro exI [of _ "[]"]) simp
  next
    case (failed work r1)
    then show ?thesis using main by blast
  next
    case (finished work st1)
    from main [OF finished(1,2)] show ?thesis using finished(4) by (simp add: save_def)
  qed
qed

theorem excluded_never_requested_witness:
  "enumerates (\<lambda>xs. xs) \<and>
   without_details_file resumed_state = Some [JStr ''1BBB''] \<and>
   requests (snd (fetchStructures (catalog_remote Map.empty) (\<lambda>xs. xs) [''1AAA'', ''1BBB'']
                    True True False resumed_state)) = [[''1AAA'']]"
proof -
  have e: "enumerates (\<lambda>xs. xs)" by (simp add: enumerates_def)
  have f: "without_details_file resumed_state = Some [JStr ''1BBB'']"
    by (simp add: resumed_state_def)
  have m: "JStr ''1BBB'' \<in> set [JStr ''1BBB'']" by simp
  have run: "fetchStructures (catalog_remote Map.empty) (\<lambda>xs. xs) [''1AAA'', ''1BBB'']
               True True False resumed_state
             = (None, resumed_state\<lparr>structureList := [rec_a],
                  pdbsWithoutDetails := [JStr ''1BBB''], requests := [[''1AAA'']]\<rparr>)"
    by (simp add: eval_defs resumed_state_def)
  from excluded_never_requested [OF e f m run]
  have "\<exists>new. [[''1AAA'']] = new \<and> (\<forall>c \<in> set new. ''1BBB'' \<notin> set c)"
    by (simp add: resumed_state_def)
  then show ?thesis using e f run by simp
qed

section \<open>The fields of a record\<close>

text \<open>
  C1 asks that a resolution whose conversion raises gives a record with a null
  resolution that does not depend on earlier entries. The handler of line 206 assigns
  \<^verbatim>\<open>resultion\<close>: for the entry 2CCC, whose \<^verbatim>\<open>resolution_combined\<close> is null, the conversion
  raises TypeError; processed first, the entry ends the call with UnboundLocalError;
  processed after 1BBB, its record carries the resolution 9/5 of 1BBB.
\<close>

theorem resolution_keeps_earlier_value:
  "extract_resolution (growth_entry ''2CCC'' (JStr ''PEG 8000'') JNull JNull) = Inl TypeError \<and>
   fst (fetchStructures (catalog_remote stale_catalog) (\<lambda>xs. xs) [''2CCC'', ''1BBB'']
          True True True fresh_state) = Some UnboundLocalError \<and>
   map (\<lambda>s. (pdbid s, resolution s))
     (structureList (snd (fetchStructures (catalog_remote stale_catalog) (\<lambda>xs. xs)
        [''1BBB'', ''2CCC''] True True True fresh_state)))
     = [(JStr ''1BBB'', Some (9 / 5)), (JStr ''2CCC'', Some (9 / 5))]"
proof (intro conjI)
  show "extract_resolution (growth_entry ''2CCC'' (JStr ''PEG 8000'') JNull JNull) = Inl TypeError"
    by (simp add: extract_resolution_def growth_entry_def and_then_def)
  show "fst (fetchStructures (catalog_remote stale_catalog) (\<lambda>xs. xs) [''2CCC'', ''1BBB'']
          True True True fresh_state) = Some UnboundLocalError"
    by (simp add: eval_defs fresh_state_def stale_catalog_def growth_entry_def)
  show "map (\<lambda>s. (pdbid s, resolution s))
     (structureList (snd (fetchStructures (catalog_remote stale_catalog) (\<lambda>xs. xs)
        [''1BBB'', ''2CCC''] True True True fresh_state)))
     = [(JStr ''1BBB'', Some (9 / 5)), (JStr ''2CCC'', Some (9 / 5))]"
    by (simp add: eval_defs fresh_state_def stale_catalog_def growth_entry_def)
qed

lemma insert_structure_last:
  "insert_structure sl s \<noteq> []" "last (insert_structure sl s) = s"
  by (simp_all add: insert_structure_def split: option.splits)

lemma build_structure_success:
  assumes "build_structure p d ce e st = (None, st')"
  shows "structureList st' \<noteq> []"
    and "pdbid (last (structureList st')) = p"
    and "pmcid (last (structureList st')) = extract_pmcid e"
    and "details (last (structureList st')) = d"
  using assms
  by (auto simp: build_structure_def Let_def insert_structure_last
      split: sum.splits option.splits)

lemma process_entry_builds:
  assumes "process_entry od e st = (None, st')" and "\<not> takes_continue od e"
  shows "\<exists>p d ce st1. py_getitem e ''rcsb_id'' = Inr p \<and>
           build_structure p d ce e st1 = (None, st')"
  using assms
  by (auto simp: process_entry_def takes_continue_def lacks_details_def and_then_def Let_def
      split: sum.splits if_splits)

lemma extract_pmcid_cases:
  "extract_pmcid entry =
     (case and_then (py_getitem entry ''pubmed'')
             (\<lambda>pm. py_getitem pm ''rcsb_pubmed_central_id'') of
        Inl e \<Rightarrow> JNull
      | Inr v \<Rightarrow> (case v of JStr s \<Rightarrow> JStr (drop 3 s) | JArr xs \<Rightarrow> JArr (drop 3 xs) | _ \<Rightarrow> JNull))"
  by (simp add: extract_pmcid_def and_then_def split: sum.splits json.splits)

text \<open>
  C9 as stated fails: the publication id 1234567, which does not start with PMC, is
  stored as 4567.
\<close>

theorem pmcid_prefix_counterexample:
  "\<not> is_prefix ''PMC'' ''1234567'' \<and>
   map pmcid (structureList (snd (process_entry True
      (growth_entry ''1BBB'' (JStr ''PEG 4000'') (JArr [JNum (9 / 5)])
         (JObj [(''rcsb_pubmed_central_id'', JStr ''1234567'')]))
      (load fresh_state)))) = [JStr ''4567''] \<and>
   JStr ''4567'' \<noteq> JStr ''1234567''"
  by (simp add: eval_defs fresh_state_def growth_entry_def)

text \<open>
  C9, amended. For every entry for which a record is built, the stored publication id is
  the remote string without its first three characters, whatever they are, so an id
  that starts with PMC loses exactly that prefix; a remote list loses its first three
  elements; an absent or null id, and any other value, give null.
\<close>

theorem pmcid_drops_three_characters:
  assumes "process_entry onlyDetails entry st = (None, st')"
    and "\<not> takes_continue onlyDetails entry"
  shows "structureList st' \<noteq> [] \<and>
     pmcid (last (structureList st')) =
       (case and_then (py_getitem entry ''pubmed'')
               (\<lambda>pm. py_getitem pm ''rcsb_pubmed_central_id'') of
          Inl e \<Rightarrow> JNull
        | Inr v \<Rightarrow> (case v of JStr s \<Rightarrow> JStr (drop 3 s) | JArr xs \<Rightarrow> JArr (drop 3 xs)
                     | _ \<Rightarrow> JNull))"
proof -
  from process_entry_builds [OF assms] obtain p d ce st1 where
    "build_structure p d ce entry st1 = (None, st')" by blast
  from build_structure_success(1,3) [OF this] show ?thesis
    by (simp add: extract_pmcid_cases)
qed

theorem pmcid_drops_three_characters_witness:
  "\<not> takes_continue True
       (growth_entry ''1BBB'' (JStr ''PEG 4000'') (JArr [JNum (9 / 5)])
          (JObj [(''rcsb_pubmed_central_id'', JStr ''PMC1234567'')])) \<and>
   map pmcid (structureList (snd (process_entry True
      (growth_entry ''1BBB'' (JStr ''PEG 4000'') (JArr [JNum (9 / 5)])
         (JObj [(''rcsb_pubmed_central_id'', JStr ''PMC1234567'')]))
      (load fresh_state)))) = [JStr ''1234567'']"
proof -
  let ?e = "growth_entry ''1BBB'' (JStr ''PEG 4000'') (JArr [JNum (9 / 5)])
          (JObj [(''rcsb_pubmed_central_id'', JStr ''PMC1234567'')])"
  have t: "\<not> takes_continue True ?e"
    by (simp add: takes_continue_def lacks_details_def growth_entry_def and_then_def)
  obtain st' where run: "process_entry True ?e (load fresh_state) = (None, st')"
    by (simp add: eval_defs fresh_state_def growth_entry_def)
  have one: "length (structureList st') = 1"
    using run by (auto simp: eval_defs fresh_state_def growth_entry_def)
  from pmcid_drops_three_characters [OF run t]
  have "pmcid (last (structureList st')) = JStr ''1234567''"
    by (simp add: growth_entry_def and_then_def)
  moreover obtain s where "structureList st' = [s]"
    using one by (cases "structureList st'") auto
  ultimately show ?thesis using t run by simp
qed

lemma build_structure_exclusions:
  "pdbsWithoutDetails (snd (build_structure p d ce e st)) = pdbsWithoutDetails st"
  using build_structure_cases(1) [of p d ce e st] by (metis prod.collapse)

text \<open>
  C10. The exclusion list is only appended to: whenever an entry has no growth data or
  the details of its first growth condition are null, its identifier is added at the
  end, whether the list holds it already or not. So a call with
  \<open>ignorePdbsWithoutDetails\<close> false that fetches again the excluded identifier 1AAA
  writes an exclusion file that holds 1AAA twice.
\<close>

theorem exclusion_list_appends:
  "(py_getitem entry ''rcsb_id'' = Inr p \<longrightarrow> lacks_details entry \<longrightarrow>
      pdbsWithoutDetails (snd (process_entry onlyDetails entry st)) =
        pdbsWithoutDetails st @ [p]) \<and>
   without_details_file (snd (fetchStructures (catalog_remote no_growth_catalog) (\<lambda>xs. xs)
      [''1AAA''] True False True excluded_state)) = Some [JStr ''1AAA'', JStr ''1AAA'']"
proof (intro conjI impI)
  assume "py_getitem entry ''rcsb_id'' = Inr p" and "lacks_details entry"
  then show "pdbsWithoutDetails (snd (process_entry onlyDetails entry st)) =
        pdbsWithoutDetails st @ [p]"
    by (auto simp: process_entry_def lacks_details_def and_then_def Let_def
        build_structure_exclusions split: sum.splits)
next
  show "without_details_file (snd (fetchStructures (catalog_remote no_growth_catalog) (\<lambda>xs. xs)
      [''1AAA''] True False True excluded_state)) = Some [JStr ''1AAA'', JStr ''1AAA'']"
    by (simp add: eval_defs excluded_state_def no_growth_catalog_def no_growth_entry_def)
qed

theorem exclusion_list_appends_witness:
  "py_getitem (no_growth_entry ''1AAA'') ''rcsb_id'' = Inr (JStr ''1AAA'') \<and>
   lacks_details (no_growth_entry ''1AAA'') \<and>
   pdbsWithoutDetails (snd (process_entry True (no_growth_entry ''1AAA'') (load excluded_state)))
     = [JStr ''1AAA'', JStr ''1AAA'']"
proof -
  have a: "py_getitem (no_growth_entry ''1AAA'') ''rcsb_id'' = Inr (JStr ''1AAA'')"
    by (simp add: no_growth_entry_def)
  have b: "lacks_details (no_growth_entry ''1AAA'')"
    by (simp add: lacks_details_def no_growth_entry_def)
  have c: "pdbsWithoutDetails (load excluded_state) = [JStr ''1AAA'']"
    by (simp add: load_def excluded_state_def file_contents_def)
  from exclusion_list_appends [where entry = "no_growth_entry ''1AAA''" and p = "JStr ''1AAA''"
      and onlyDetails = True and st = "load excluded_state"]
  show ?thesis using a b c by simp
qed

section \<open>The example of two identifiers\<close>

lemma process_chunk_two_entries:
  assumes "loadPdbs w = Inr (data_response es)"
    and "es = [no_growth_entry ''1AAA'',
               growth_entry ''1BBB'' (JStr d) (JArr [JNum (9 / 5)]) pm] \<or>
         es = [growth_entry ''1BBB'' (JStr d) (JArr [JNum (9 / 5)]) pm,
               no_growth_entry ''1AAA'']"
    and "structureList st = []" and "pdbsWithoutDetails st = []"
  shows "\<exists>st' s. process_chunk loadPdbs True w st = (None, st') \<and>
     structureList st' = [s] \<and> structures_file st' = Some [s] \<and>
     pdbid s = JStr ''1BBB'' \<and> details s = JStr d \<and>
     pH s = Some 7 \<and> temperature s = Some 298 \<and> resolution s = Some (9 / 5) \<and>
     crystal_method s = JStr ''Vapor Diffusion'' \<and>
     pdbsWithoutDetails st' = [JStr ''1AAA''] \<and>
     without_details_file st' = Some [JStr ''1AAA'']"
  using assms(2)
proof
  assume "es = [no_growth_entry ''1AAA'',
               growth_entry ''1BBB'' (JStr d) (JArr [JNum (9 / 5)]) pm]"
  then show ?thesis using assms(1,3,4)
    by (simp add: eval_defs no_growth_entry_def growth_entry_def)
next
  assume "es = [growth_entry ''1BBB'' (JStr d) (JArr [JNum (9 / 5)]) pm,
               no_growth_entry ''1AAA'']"
  then show ?thesis using assms(1,3,4)
    by (simp add: eval_defs no_growth_entry_def growth_entry_def)
qed

text \<open>
  C8. The universe is 1AAA and 1BBB, in any order and with any order of the set; the
  response to the batch of the two has null \<^verbatim>\<open>exptl_crystal_grow\<close> for 1AAA and, for 1BBB,
  pH "7.0", temp "298", method "Vapor Diffusion", details \<open>d\<close> and resolution list [1.8],
  the two entries in either order; the store and the exclusion file are absent or empty.
  Then \<open>fetchStructures\<close> with \<open>onlyDetails\<close> true returns normally, the store (in memory
  and on file) holds exactly one record, that of 1BBB, with pH 7, temperature 298 and
  resolution 9/5, and the exclusion list (in memory and on file) is exactly 1AAA.
\<close>

theorem example_two_identifiers:
  assumes "enumerates set_iter"
    and "set pdbList = {''1AAA'', ''1BBB''}"
    and "\<forall>chunk. distinct chunk \<and> set chunk = {''1AAA'', ''1BBB''} \<longrightarrow>
           loadPdbs chunk = Inr (data_response
             [no_growth_entry ''1AAA'',
              growth_entry ''1BBB'' (JStr d) (JArr [JNum (9 / 5)]) pm]) \<or>
           loadPdbs chunk = Inr (data_response
             [growth_entry ''1BBB'' (JStr d) (JArr [JNum (9 / 5)]) pm,
              no_growth_entry ''1AAA''])"
    and "file_contents (structures_file st) = []"
    and "file_contents (without_details_file st) = []"
  shows "\<exists>st' s.
     fetchStructures loadPdbs set_iter pdbList True iwd ic st = (None, st') \<and>
     structureList st' = [s] \<and> structures_file st' = Some [s] \<and>
     pdbid s = JStr ''1BBB'' \<and> details s = JStr d \<and>
     pH s = Some 7 \<and> temperature s = Some 298 \<and> resolution s = Some (9 / 5) \<and>
     crystal_method s = JStr ''Vapor Diffusion'' \<and>
     pdbsWithoutDetails st' = [JStr ''1AAA''] \<and>
     without_details_file st' = Some [JStr ''1AAA'']"
proof -
  define w where "w = set_iter (remdups pdbList)"
  have ign: "ignoredPdbList iwd ic (load st) = []"
    using assms(4,5) by (simp add: ignoredPdbList_def load_def)
  have wl: "work_list set_iter pdbList (ignoredPdbList iwd ic (load st)) = Inr w"
    unfolding ign by (simp add: work_list_def w_def)
  have dw: "distinct w" and sw: "set w = {''1AAA'', ''1BBB''}"
    using assms(1,2) unfolding enumerates_def w_def by (simp_all add: distinct_remdups)
  have "card (set w) = 2" unfolding sw by simp
  then have lw: "length w = 2" using dw by (simp add: distinct_card)
  then have cw: "chunks_from w 1000 0 = [w]" by (intro chunks_from_short) auto
  from assms(3) dw sw obtain es where es: "loadPdbs w = Inr (data_response es)"
    "es = [no_growth_entry ''1AAA'',
               growth_entry ''1BBB'' (JStr d) (JArr [JNum (9 / 5)]) pm] \<or>
         es = [growth_entry ''1BBB'' (JStr d) (JArr [JNum (9 / 5)]) pm,
               no_growth_entry ''1AAA'']"
    by blast
  have l1: "structureList (load st) = []" and l2: "pdbsWithoutDetails (load st) = []"
    using assms(4,5) by (simp_all add: load_def)
  from process_chunk_two_entries [where loadPdbs = loadPdbs and w = w, OF es(1) es(2) l1 l2]
  obtain st' s where
    r: "process_chunk loadPdbs True w (load st) = (None, st')"
     "structureList st' = [s]" "structures_file st' = Some [s]"
     "pdbid s = JStr ''1BBB''" "details s = JStr d"
     "pH s = Some 7" "temperature s = Some 298" "resolution s = Some (9 / 5)"
     "crystal_method s = JStr ''Vapor Diffusion''"
     "pdbsWithoutDetails st' = [JStr ''1AAA'']"
     "without_details_file st' = Some [JStr ''1AAA'']"
    by blast
  have "fetchStructures loadPdbs set_iter pdbList True iwd ic st = (None, save st')"
    using wl cw r(1) by (simp add: fetchStructures_def chunks_CHUNK_SIZE)
  then show ?thesis using r(2-11)
    by (intro exI [of _ "save st'"] exI [of _ s]) (simp add: save_def)
qed

theorem example_two_identifiers_witness:
  "enumerates rev \<and> set [''1AAA'', ''1BBB''] = {''1AAA'', ''1BBB''} \<and>
   file_contents (structures_file fresh_state) = [] \<and>
   file_contents (without_details_file fresh_state) = [] \<and>
   (\<exists>st' s. fetchStructures (\<lambda>chunk. Inr (data_response two_entries)) rev
        [''1AAA'', ''1BBB''] True True True fresh_state = (None, st') \<and>
      structureList st' = [s] \<and> pdbid s = JStr ''1BBB'' \<and> pH s = Some 7 \<and>
      temperature s = Some 298 \<and> resolution s = Some (9 / 5) \<and>
      pdbsWithoutDetails st' = [JStr ''1AAA''])"
proof -
  have e: "enumerates rev" by (simp add: enumerates_def)
  have u: "set [''1AAA'', ''1BBB''] = {''1AAA'', ''1BBB''}" by simp
  have f1: "file_contents (structures_file fresh_state) = []"
    and f2: "file_contents (without_details_file fresh_state) = []"
    by (simp_all add: fresh_state_def file_contents_def)
  have r: "\<forall>chunk. distinct chunk \<and> set chunk = {''1AAA'', ''1BBB''} \<longrightarrow>
           (\<lambda>chunk. Inr (data_response two_entries)) chunk = Inr (data_response
             [no_growth_entry ''1AAA'',
              growth_entry ''1BBB'' (JStr ''PEG 4000'') (JArr [JNum (9 / 5)]) JNull]) \<or>
           (\<lambda>chunk. Inr (data_response two_entries)) chunk = Inr (data_response
             [growth_entry ''1BBB'' (JStr ''PEG 4000'') (JArr [JNum (9 / 5)]) JNull,
              no_growth_entry ''1AAA''])"
    by (simp add: two_entries_def)
  from example_two_identifiers [OF e u r f1 f2, of True True]
  show ?thesis using e u f1 f2 by blast
qed

section \<open>A batch whose response has no data\<close>

lemma distinct_concat_unique:
  "distinct (concat cs) \<Longrightarrow> c \<in> set cs \<Longrightarrow> c' \<in> set cs \<Longrightarrow>
   x \<in> set c \<Longrightarrow> x \<in> set c' \<Longrightarrow> c = c'"
proof (induction cs)
  case Nil
  then show ?case by simp
next
  case (Cons a cs)
  have d: "distinct (concat cs)" and dis: "set a \<inter> (\<Union>y \<in> set cs. set y) = {}"
    using Cons.prems(1) by auto
  show ?case
  proof (cases "c = a")
    case True
    show ?thesis
    proof (cases "c' = a")
      case True
      then show ?thesis using \<open>c = a\<close> by simp
    next
      case False
      then have "c' \<in> set cs" using Cons.prems(3) by simp
      then have "x \<in> (\<Union>y \<in> set cs. set y)" using Cons.prems(5) by blast
      then show ?thesis using dis Cons.prems(4) True by blast
    qed
  next
    case False
    then have c: "c \<in> set cs" using Cons.prems(2) by simp
    show ?thesis
    proof (cases "c' = a")
      case True
      have "x \<in> (\<Union>y \<in> set cs. set y)" using c Cons.prems(4) by blast
      then show ?thesis using dis Cons.prems(5) True by blast
    next
      case False
      then have "c' \<in> set cs" using Cons.prems(3) by simp
      then show ?thesis using Cons.IH [OF d c _ Cons.prems(4,5)] by simp
    qed
  qed
qed

lemma chunk_ids_requested:
  assumes "answers_requested loadPdbs"
  shows "chunk_ids loadPdbs c \<subseteq> JStr ` set c"
proof (cases "loadPdbs c")
  case (Inl e)
  then show ?thesis by (simp add: chunk_ids_def)
next
  case (Inr response)
  show ?thesis
  proof
    fix p assume "p \<in> chunk_ids loadPdbs c"
    then obtain entry where "entry \<in> set (response_entries response)"
      "py_getitem entry ''rcsb_id'' = Inr p"
      using Inr by (auto simp: chunk_ids_def entry_ids_def)
    then show "p \<in> JStr ` set c"
      using assms Inr unfolding answers_requested_def by blast
  qed
qed

lemma chunks_ids_strings:
  assumes "answers_requested loadPdbs"
  shows "chunks_ids loadPdbs cs \<subseteq> range JStr"
  using chunk_ids_requested [OF assms] unfolding chunks_ids_def by blast

lemma chunk_ids_no_data:
  "loadPdbs c = Inr response \<Longrightarrow> py_contains ''data'' response = Inr False \<Longrightarrow>
   chunk_ids loadPdbs c = {}"
  by (simp add: chunk_ids_def response_entries_def entry_ids_def)

lemma records_of_member: "q \<in> pdbid ` set sl \<longleftrightarrow> records_of q sl \<noteq> []"
  by (auto simp: records_of_def filter_empty_conv)

lemma occurrences_member: "q \<in> set xs \<longleftrightarrow> occurrences q xs \<noteq> []"
  by (auto simp: occurrences_def filter_empty_conv)

lemma hashable_ignored:
  "list_all hashable (ignoredPdbList iwd ic st) \<longleftrightarrow>
     (iwd \<longrightarrow> (\<forall>x \<in> set (pdbsWithoutDetails st). hashable x)) \<and>
     (ic \<longrightarrow> (\<forall>x \<in> pdbid ` set (structureList st). hashable x))"
  by (auto simp: ignoredPdbList_def list_all_iff)

lemma member_ignored:
  "q \<in> set (ignoredPdbList iwd ic st) \<longleftrightarrow>
     (iwd \<and> q \<in> set (pdbsWithoutDetails st)) \<or> (ic \<and> q \<in> pdbid ` set (structureList st))"
  by (auto simp: ignoredPdbList_def)

lemma fetchStructures_run:
  assumes "fetchStructures loadPdbs set_iter pdbList od iwd ic st = (r, st')"
    and "requests st' \<noteq> requests st"
  obtains work st1 where
      "work_list set_iter pdbList (ignoredPdbList iwd ic (load st)) = Inr work"
      "process_chunks loadPdbs od (chunks_from work 1000 0) (load st) = (r, st1)"
      "st' = st1 \<or> st' = save st1"
  using assms(1)
proof (cases rule: fetchStructures_cases)
  case (unhashable e)
  then have "requests st' = requests st" by (simp add: load_def)
  then show ?thesis using assms(2) by simp
next
  case (failed work r1)
  then show ?thesis using that [of work st'] by simp
next
  case (finished work st1)
  then show ?thesis using that [of work st1] by simp
qed

lemma skipped_batch_untouched:
  assumes en: "enumerates set_iter"
    and ar: "answers_requested loadPdbs"
    and w: "work_list set_iter pdbList (ignoredPdbList iwd ic (load st)) = Inr work"
    and pc: "process_chunks loadPdbs od (chunks_from work 1000 0) (load st) = (r, st1)"
    and c: "chunk \<in> set (chunks_from work 1000 0)"
    and nd: "loadPdbs chunk = Inr response" "py_contains ''data'' response = Inr False"
    and i: "i \<in> set chunk"
  shows "synced (JStr i) st1"
    and "records_of (JStr i) (structureList st1) =
         records_of (JStr i) (file_contents (structures_file st))"
    and "occurrences (JStr i) (pdbsWithoutDetails st1) =
         occurrences (JStr i) (file_contents (without_details_file st))"
proof -
  let ?cs = "chunks_from work 1000 0"
  have cc: "concat ?cs = work" using chunks_from_concat [of 1000 work 0] by simp
  have dc: "distinct (concat ?cs)" unfolding cc using work_list_Inr(1) [OF en w] .
  have q: "JStr i \<notin> chunks_ids loadPdbs ?cs"
  proof
    assume "JStr i \<in> chunks_ids loadPdbs ?cs"
    then obtain c' where c': "c' \<in> set ?cs" "JStr i \<in> chunk_ids loadPdbs c'"
      unfolding chunks_ids_def by blast
    then have "JStr i \<in> JStr ` set c'" using chunk_ids_requested [OF ar] by blast
    then have "i \<in> set c'" by auto
    then have "chunk = c'" using distinct_concat_unique [OF dc c c'(1) i] by simp
    moreover have "chunk_ids loadPdbs chunk = {}" using nd by (rule chunk_ids_no_data)
    ultimately show False using c'(2) by simp
  qed
  show "synced (JStr i) st1"
    using process_chunks_synced [OF pc synced_load q] .
  show "records_of (JStr i) (structureList st1) =
         records_of (JStr i) (file_contents (structures_file st))"
    using grows_records [OF process_chunks_grows [OF pc] q] by (simp add: load_def)
  show "occurrences (JStr i) (pdbsWithoutDetails st1) =
         occurrences (JStr i) (file_contents (without_details_file st))"
    using grows_occurrences [OF process_chunks_grows [OF pc] q] by (simp add: load_def)
qed

lemma run_keeps_hashable:
  assumes ar: "answers_requested loadPdbs"
    and pc: "process_chunks loadPdbs od cs (load st) = (r, st1)"
    and h: "list_all hashable (ignoredPdbList iwd ic (load st))"
    and st': "st' = st1 \<or> st' = save st1"
  shows "list_all hashable (ignoredPdbList iwd ic (load st'))"
proof -
  note g = process_chunks_grows [OF pc]
  have T: "\<And>x. x \<in> chunks_ids loadPdbs cs \<Longrightarrow> hashable x"
    using chunks_ids_strings [OF ar, of cs] by auto
  have fb: "files_behind st'"
    using st' process_chunks_files_behind [OF pc files_behind_load] files_behind_save by blast
  have gl: "pdbsWithoutDetails st' = pdbsWithoutDetails st1"
    "structureList st' = structureList st1"
    using st' by (auto simp: save_def)
  have a: "hashable x" if "iwd" and "x \<in> set (pdbsWithoutDetails (load st'))" for x
  proof -
    have "x \<in> set (pdbsWithoutDetails st1)"
      using that(2) fb gl unfolding files_behind_def by (auto simp: load_def)
    then have "x \<in> set (pdbsWithoutDetails (load st)) \<or> x \<in> chunks_ids loadPdbs cs"
      using grows_excl_subset(2) [OF g] by blast
    then show ?thesis using h that(1) T unfolding hashable_ignored by blast
  qed
  have b: "hashable x" if "ic" and "x \<in> pdbid ` set (structureList (load st'))" for x
  proof -
    have "x \<in> pdbid ` set (structureList st1)"
      using that(2) fb gl unfolding files_behind_def by (auto simp: load_def)
    then have "x \<in> pdbid ` set (structureList (load st)) \<or> x \<in> chunks_ids loadPdbs cs"
      using grows_ids_subset(2) [OF g] by blast
    then show ?thesis using h that(1) T unfolding hashable_ignored by blast
  qed
  show ?thesis unfolding hashable_ignored using a b by blast
qed

text \<open>
  C5. The remote service answers about the identifiers of a request only. Let a call
  send a batch whose response has no \<^verbatim>\<open>"data"\<close> in it, and let \<open>i\<close> be an identifier of
  that batch. Then, whether the call returns or raises later, the records of \<open>i\<close> in the
  store and the occurrences of \<open>i\<close> in the exclusion list, in memory and on file, are
  those that the files held before the call: nothing was added for \<open>i\<close>. And a next call
  on the same universe with the same options computes a work list, whatever the order
  of the set, and \<open>i\<close> is in it.
\<close>

theorem skipped_batch_is_retried:
  assumes "enumerates set_iter"
    and "answers_requested loadPdbs"
    and "fetchStructures loadPdbs set_iter pdbList od iwd ic st = (r, st')"
    and "requests st' = requests st @ new" and "chunk \<in> set new"
    and "loadPdbs chunk = Inr response" and "py_contains ''data'' response = Inr False"
    and "i \<in> set chunk"
  shows "records_of (JStr i) (structureList st') =
           records_of (JStr i) (file_contents (structures_file st)) \<and>
         records_of (JStr i) (file_contents (structures_file st')) =
           records_of (JStr i) (file_contents (structures_file st)) \<and>
         occurrences (JStr i) (pdbsWithoutDetails st') =
           occurrences (JStr i) (file_contents (without_details_file st)) \<and>
         occurrences (JStr i) (file_contents (without_details_file st')) =
           occurrences (JStr i) (file_contents (without_details_file st)) \<and>
         i \<in> set pdbList \<and>
         (\<forall>set_iter'. enumerates set_iter' \<longrightarrow>
            (\<exists>work'. work_list set_iter' pdbList (ignoredPdbList iwd ic (load st')) = Inr work' \<and>
                     i \<in> set work'))"
proof -
  have ne: "requests st' \<noteq> requests st" using assms(4,5) by auto
  from assms(3) ne obtain work st1 where
    w: "work_list set_iter pdbList (ignoredPdbList iwd ic (load st)) = Inr work"
    and pc: "process_chunks loadPdbs od (chunks_from work 1000 0) (load st) = (r, st1)"
    and st': "st' = st1 \<or> st' = save st1"
    by (rule fetchStructures_run)
  from process_chunks_requests [OF pc] obtain new1 where
    n1: "requests st1 = requests st @ new1" "set new1 \<subseteq> set (chunks_from work 1000 0)"
    by (auto simp: load_def)
  have "requests st' = requests st1" using st' by (auto simp: save_def)
  then have "new = new1" using assms(4) n1(1) by simp
  then have c: "chunk \<in> set (chunks_from work 1000 0)" using assms(5) n1(2) by blast
  note u = skipped_batch_untouched [OF assms(1,2) w pc c assms(6,7,8)]
  let ?q = "JStr i"
  have g1: "records_of ?q (structureList st') =
           records_of ?q (file_contents (structures_file st))"
    using st' u(2) by (auto simp: save_def)
  have g2: "occurrences ?q (pdbsWithoutDetails st') =
           occurrences ?q (file_contents (without_details_file st))"
    using st' u(3) by (auto simp: save_def)
  have sy: "synced ?q st'" using st' u(1) synced_save by blast
  have f1: "records_of ?q (file_contents (structures_file st')) =
           records_of ?q (file_contents (structures_file st))"
    using sy g1 unfolding synced_def by simp
  have f2: "occurrences ?q (file_contents (without_details_file st')) =
           occurrences ?q (file_contents (without_details_file st))"
    using sy g2 unfolding synced_def by simp
  have iw: "i \<in> set work" using chunks_from_subset [OF c] assms(8) by blast
  have ws: "set work = {i \<in> set pdbList. JStr i \<notin> set (ignoredPdbList iwd ic (load st))}"
    using work_list_Inr(2) [OF assms(1) w] .
  have ip: "i \<in> set pdbList" and ni: "?q \<notin> set (ignoredPdbList iwd ic (load st))"
    using iw ws by auto
  have m0: "\<not> ((iwd \<and> ?q \<in> set (file_contents (without_details_file st))) \<or>
               (ic \<and> ?q \<in> pdbid ` set (file_contents (structures_file st))))"
    using ni by (simp add: member_ignored load_def)
  have e1: "?q \<in> set (file_contents (without_details_file st')) \<longleftrightarrow>
            ?q \<in> set (file_contents (without_details_file st))"
    using f2 by (simp add: occurrences_member)
  have e2: "?q \<in> pdbid ` set (file_contents (structures_file st')) \<longleftrightarrow>
            ?q \<in> pdbid ` set (file_contents (structures_file st))"
    using f1 by (simp add: records_of_member)
  have ni': "?q \<notin> set (ignoredPdbList iwd ic (load st'))"
    using m0 e1 e2 by (simp add: member_ignored load_def)
  have h': "list_all hashable (ignoredPdbList iwd ic (load st'))"
    using run_keeps_hashable [OF assms(2) pc work_list_Inr(3) [OF assms(1) w] st'] .
  have nx: "\<forall>set_iter'. enumerates set_iter' \<longrightarrow>
            (\<exists>work'. work_list set_iter' pdbList (ignoredPdbList iwd ic (load st')) = Inr work' \<and>
                     i \<in> set work')"
  proof (intro allI impI)
    fix set_iter' assume e': "enumerates set_iter'"
    let ?w = "set_iter' (remdups (filter (\<lambda>p. JStr p \<notin> set (ignoredPdbList iwd ic (load st'))) pdbList))"
    have wl: "work_list set_iter' pdbList (ignoredPdbList iwd ic (load st')) = Inr ?w"
      using h' by (simp add: work_list_def)
    have "i \<in> set ?w" using work_list_Inr(2) [OF e' wl] ip ni' by simp
    with wl show "\<exists>work'. work_list set_iter' pdbList (ignoredPdbList iwd ic (load st')) = Inr work' \<and>
                     i \<in> set work'" by blast
  qed
  show ?thesis using g1 f1 g2 f2 ip nx by (intro conjI)
qed

theorem skipped_batch_is_retried_witness:
  "enumerates (\<lambda>xs. xs) \<and> answers_requested (\<lambda>chunk. Inr error_response) \<and>
   py_contains ''data'' error_response = Inr False \<and>
   requests (snd (fetchStructures (\<lambda>chunk. Inr error_response) (\<lambda>xs. xs) [''1AAA'']
                    True True True fresh_state)) = [[''1AAA'']] \<and>
   structureList (snd (fetchStructures (\<lambda>chunk. Inr error_response) (\<lambda>xs. xs) [''1AAA'']
                    True True True fresh_state)) = [] \<and>
   (\<exists>work'. work_list (\<lambda>xs. xs) [''1AAA'']
       (ignoredPdbList True True
          (load (snd (fetchStructures (\<lambda>chunk. Inr error_response) (\<lambda>xs. xs) [''1AAA'']
                        True True True fresh_state)))) = Inr work' \<and>
      ''1AAA'' \<in> set work')"
proof -
  let ?st' = "fresh_state\<lparr>structures_file := Some [], without_details_file := Some [],
                requests := [[''1AAA'']]\<rparr>"
  have e: "enumerates (\<lambda>xs. xs)" by (simp add: enumerates_def)
  have nd: "py_contains ''data'' error_response = Inr False"
    by (simp add: error_response_def)
  have ar: "answers_requested (\<lambda>chunk. Inr error_response)"
    by (simp add: answers_requested_def response_entries_def nd)
  have run: "fetchStructures (\<lambda>chunk. Inr error_response) (\<lambda>xs. xs) [''1AAA'']
               True True True fresh_state = (None, ?st')"
    by (simp add: eval_defs nd fresh_state_def)
  have rq: "requests ?st' = requests fresh_state @ [[''1AAA'']]"
    by (simp add: fresh_state_def)
  have c: "[''1AAA''] \<in> set [[''1AAA'']]" and i: "''1AAA'' \<in> set [''1AAA'']" by simp_all
  have l: "(\<lambda>chunk. Inr error_response) [''1AAA''] = Inr error_response" by simp
  from skipped_batch_is_retried [OF e ar run rq c l nd i]
  have "records_of (JStr ''1AAA'') (structureList ?st') =
          records_of (JStr ''1AAA'') (file_contents (structures_file fresh_state))"
    and "\<exists>work'. work_list (\<lambda>xs. xs) [''1AAA''] (ignoredPdbList True True (load ?st')) = Inr work' \<and>
                     ''1AAA'' \<in> set work'"
    using e by blast+
  then show ?thesis using e ar nd run by (simp add: fresh_state_def)
qed

section \<open>A second call\<close>

lemma set_map_filter_catalog:
  "e \<in> set (List.map_filter catalog c) \<longleftrightarrow> (\<exists>i \<in> set c. catalog i = Some e)"
  by (induction c) (auto split: option.splits)

lemma response_entries_data: "response_entries (data_response es) = es"
  by (simp add: response_entries_def data_response_def and_then_def)

lemma catalog_answers_requested:
  assumes "catalog_ids_match catalog"
  shows "answers_requested (catalog_remote catalog)"
  unfolding answers_requested_def
proof (intro allI impI ballI)
  fix chunk response entry p
  assume r: "catalog_remote catalog chunk = Inr response"
    and e: "entry \<in> set (response_entries response)"
    and p: "py_getitem entry ''rcsb_id'' = Inr p"
  from r have "response_entries response = List.map_filter catalog chunk"
    by (auto simp: catalog_remote_def response_entries_data)
  with e obtain i where i: "i \<in> set chunk" "catalog i = Some entry"
    by (auto simp: set_map_filter_catalog)
  then have "py_getitem entry ''rcsb_id'' = Inr (JStr i)"
    using assms unfolding catalog_ids_match_def by blast
  with p i(1) show "p \<in> JStr ` set chunk" by auto
qed

lemma process_entry_continue:
  "takes_continue od e \<Longrightarrow> py_getitem e ''rcsb_id'' = Inr p \<Longrightarrow>
   process_entry od e st = (None, st\<lparr>pdbsWithoutDetails := pdbsWithoutDetails st @ [p]\<rparr>)"
  by (auto simp: takes_continue_def lacks_details_def and_then_def process_entry_def Let_def
      split: sum.splits)

lemma process_entries_continue:
  "\<forall>e \<in> set es. takes_continue od e \<and> (\<exists>p. py_getitem e ''rcsb_id'' = Inr p) \<Longrightarrow>
   \<exists>st'. process_entries od es st = (None, st') \<and> structureList st' = structureList st \<and>
         requests st' = requests st"
proof (induction es arbitrary: st)
  case Nil
  then show ?case by simp
next
  case (Cons e es)
  from Cons.prems obtain p where t: "takes_continue od e" "py_getitem e ''rcsb_id'' = Inr p"
    by auto
  let ?st = "st\<lparr>pdbsWithoutDetails := pdbsWithoutDetails st @ [p]\<rparr>"
  have "\<forall>e \<in> set es. takes_continue od e \<and> (\<exists>p. py_getitem e ''rcsb_id'' = Inr p)"
    using Cons.prems by simp
  from Cons.IH [OF this, of ?st] obtain st' where
    "process_entries od es ?st = (None, st')" "structureList st' = structureList st"
    "requests st' = requests st"
    by auto
  then show ?case using process_entry_continue [OF t, of st] by simp
qed

lemma process_entry_adds:
  assumes "process_entry od e st = (None, st')" and "\<not> takes_continue od e"
    and "py_getitem e ''rcsb_id'' = Inr p"
  shows "p \<in> pdbid ` set (structureList st')"
proof -
  from process_entry_builds [OF assms(1,2)] obtain p' d ce st1 where
    b: "py_getitem e ''rcsb_id'' = Inr p'" "build_structure p' d ce e st1 = (None, st')"
    by blast
  have "p' = p" using b(1) assms(3) by simp
  moreover have "pdbid (last (structureList st')) \<in> pdbid ` set (structureList st')"
    using build_structure_success(1) [OF b(2)] by simp
  ultimately show ?thesis using build_structure_success(2) [OF b(2)] by simp
qed

lemma process_entries_adds:
  "process_entries od es st = (None, st') \<Longrightarrow> e \<in> set es \<Longrightarrow> \<not> takes_continue od e \<Longrightarrow>
   py_getitem e ''rcsb_id'' = Inr p \<Longrightarrow> p \<in> pdbid ` set (structureList st')"
proof (induction es arbitrary: st)
  case Nil
  then show ?case by simp
next
  case (Cons a es)
  from Cons.prems(1) show ?case
  proof (cases rule: process_entries_Cons)
    case (1 r1)
    then show ?thesis by simp
  next
    case (2 st1)
    show ?thesis
    proof (cases "e = a")
      case True
      have "p \<in> pdbid ` set (structureList st1)"
        using process_entry_adds [OF 2(1)] Cons.prems(3,4) True by simp
      then show ?thesis using grows_ids_subset(1) [OF process_entries_grows [OF 2(2)]] by blast
    next
      case False
      then have "e \<in> set es" using Cons.prems(2) by simp
      from Cons.IH [OF 2(2) this Cons.prems(3,4)] show ?thesis .
    qed
  qed
qed

lemma process_chunk_catalog:
  "process_chunk (catalog_remote catalog) od c st =
     (case process_entries od (List.map_filter catalog c)
             (st\<lparr>requests := requests st @ [c]\<rparr>) of
        (Some e, st') \<Rightarrow> (Some e, st')
      | (None, st') \<Rightarrow> (None, save st'))"
  by (simp add: process_chunk_def catalog_remote_def data_response_def and_then_def)

lemma process_chunk_adds:
  assumes "process_chunk (catalog_remote catalog) od c st = (None, st')"
    and "catalog_ids_match catalog"
    and "i \<in> set c" and "catalog i = Some e" and "\<not> takes_continue od e"
  shows "JStr i \<in> pdbid ` set (structureList st')"
proof -
  obtain r1 st1 where pe: "process_entries od (List.map_filter catalog c)
             (st\<lparr>requests := requests st @ [c]\<rparr>) = (r1, st1)"
    by (cases "process_entries od (List.map_filter catalog c)
             (st\<lparr>requests := requests st @ [c]\<rparr>)")
  have r1: "r1 = None" and st': "st' = save st1"
    using assms(1) pe by (auto simp: process_chunk_catalog split: option.splits)
  have m: "e \<in> set (List.map_filter catalog c)"
    using assms(3,4) by (auto simp: set_map_filter_catalog)
  have id: "py_getitem e ''rcsb_id'' = Inr (JStr i)"
    using assms(2,4) unfolding catalog_ids_match_def by blast
  have "JStr i \<in> pdbid ` set (structureList st1)"
    using process_entries_adds [OF pe [unfolded r1] m assms(5) id] .
  then show ?thesis using st' by (simp add: save_def)
qed

lemma process_chunks_adds:
  "process_chunks (catalog_remote catalog) od cs st = (None, st') \<Longrightarrow>
   catalog_ids_match catalog \<Longrightarrow> c \<in> set cs \<Longrightarrow> i \<in> set c \<Longrightarrow> catalog i = Some e \<Longrightarrow>
   \<not> takes_continue od e \<Longrightarrow> JStr i \<in> pdbid ` set (structureList st')"
proof (induction cs arbitrary: st)
  case Nil
  then show ?case by simp
next
  case (Cons a cs)
  from Cons.prems(1) show ?case
  proof (cases rule: process_chunks_Cons)
    case (1 r1)
    then show ?thesis by simp
  next
    case (2 st1)
    show ?thesis
    proof (cases "c = a")
      case True
      have "JStr i \<in> pdbid ` set (structureList st1)"
        using process_chunk_adds [OF 2(1) Cons.prems(2)] Cons.prems(4,5,6) True by simp
      then show ?thesis using grows_ids_subset(1) [OF process_chunks_grows [OF 2(2)]] by blast
    next
      case False
      then have "c \<in> set cs" using Cons.prems(3) by simp
      from Cons.IH [OF 2(2) Cons.prems(2) this Cons.prems(4,5,6)] show ?thesis .
    qed
  qed
qed

lemma process_chunks_continue:
  assumes "catalog_ids_match catalog"
  shows "\<forall>c \<in> set cs. \<forall>i \<in> set c. \<forall>e. catalog i = Some e \<longrightarrow> takes_continue od e \<Longrightarrow>
   \<exists>st'. process_chunks (catalog_remote catalog) od cs st = (None, st') \<and>
         structureList st' = structureList st"
proof (induction cs arbitrary: st)
  case Nil
  then show ?case by simp
next
  case (Cons c cs)
  let ?st = "st\<lparr>requests := requests st @ [c]\<rparr>"
  have "\<forall>e \<in> set (List.map_filter catalog c).
          takes_continue od e \<and> (\<exists>p. py_getitem e ''rcsb_id'' = Inr p)"
  proof
    fix e assume "e \<in> set (List.map_filter catalog c)"
    then obtain i where i: "i \<in> set c" "catalog i = Some e"
      by (auto simp: set_map_filter_catalog)
    then have "takes_continue od e" using Cons.prems by simp
    moreover have "py_getitem e ''rcsb_id'' = Inr (JStr i)"
      using assms i(2) unfolding catalog_ids_match_def by blast
    ultimately show "takes_continue od e \<and> (\<exists>p. py_getitem e ''rcsb_id'' = Inr p)" by blast
  qed
  from process_entries_continue [OF this, of ?st] obtain st1 where
    s1: "process_entries od (List.map_filter catalog c) ?st = (None, st1)"
    "structureList st1 = structureList st" by auto
  have pc: "process_chunk (catalog_remote catalog) od c st = (None, save st1)"
    using s1(1) by (simp add: process_chunk_catalog)
  have "\<forall>c \<in> set cs. \<forall>i \<in> set c. \<forall>e. catalog i = Some e \<longrightarrow> takes_continue od e"
    using Cons.prems by simp
  from Cons.IH [OF this, of "save st1"] obtain st' where
    "process_chunks (catalog_remote catalog) od cs (save st1) = (None, st')"
    "structureList st' = structureList (save st1)" by auto
  then show ?case using pc s1(2) by (simp add: save_def)
qed

text \<open>
  C6. The remote service holds a fixed entry for each identifier it knows, under that
  identifier, and answers every request from these entries. A first call with
  \<open>ignoreCompletedPdbs\<close> true returns normally and leaves the state \<open>st1\<close>. Then a second
  call on the same universe with the same options, started from \<open>st1\<close>, whatever the order
  of its work set, returns normally too, and the store after it, in memory and on file,
  is the store after the first call.
\<close>

theorem second_run_changes_nothing:
  assumes "enumerates set_iter1" and "enumerates set_iter2"
    and "catalog_ids_match catalog"
    and "set pdbList2 = set pdbList1"
    and "fetchStructures (catalog_remote catalog) set_iter1 pdbList1 od iwd True st0
           = (None, st1)"
  shows "\<exists>st2. fetchStructures (catalog_remote catalog) set_iter2 pdbList2 od iwd True st1
                 = (None, st2) \<and>
               structureList st2 = structureList st1 \<and>
               structures_file st2 = structures_file st1"
proof -
  let ?remote = "catalog_remote catalog"
  from assms(5) obtain work1 s1 where
    w1: "work_list set_iter1 pdbList1 (ignoredPdbList iwd True (load st0)) = Inr work1"
    and pc1: "process_chunks ?remote od (chunks_from work1 1000 0) (load st0) = (None, s1)"
    and st1: "st1 = save s1"
    by (cases rule: fetchStructures_cases) auto
  have ar: "answers_requested ?remote" using assms(3) by (rule catalog_answers_requested)
  note g1 = process_chunks_grows [OF pc1]
  have l1: "structureList (load st1) = structureList s1"
    "pdbsWithoutDetails (load st1) = pdbsWithoutDetails s1"
    unfolding st1 by (simp_all add: load_def save_def file_contents_def)
  have h2: "list_all hashable (ignoredPdbList iwd True (load st1))"
    using run_keeps_hashable [OF ar pc1 work_list_Inr(3) [OF assms(1) w1]] st1 by blast
  define work2 where
    "work2 = set_iter2 (remdups (filter
               (\<lambda>p. JStr p \<notin> set (ignoredPdbList iwd True (load st1))) pdbList2))"
  have w2: "work_list set_iter2 pdbList2 (ignoredPdbList iwd True (load st1)) = Inr work2"
    using h2 by (simp add: work_list_def work2_def)
  have cont: "\<forall>c \<in> set (chunks_from work2 1000 0). \<forall>i \<in> set c. \<forall>e.
                catalog i = Some e \<longrightarrow> takes_continue od e"
  proof (intro ballI allI impI)
    fix c i e
    assume c: "c \<in> set (chunks_from work2 1000 0)" and i: "i \<in> set c"
      and e: "catalog i = Some e"
    have "i \<in> set work2" using chunks_from_subset [OF c] i by blast
    then have ip: "i \<in> set pdbList1"
      and ni2: "JStr i \<notin> set (ignoredPdbList iwd True (load st1))"
      using work_list_Inr(2) [OF assms(2) w2] assms(4) by auto
    have n1: "JStr i \<notin> pdbid ` set (structureList s1)"
      and n2: "iwd \<longrightarrow> JStr i \<notin> set (pdbsWithoutDetails s1)"
      using ni2 unfolding member_ignored l1 by auto
    have "JStr i \<notin> set (ignoredPdbList iwd True (load st0))"
      using n1 n2 grows_ids_subset(1) [OF g1] grows_excl_subset(1) [OF g1]
      unfolding member_ignored by blast
    then have "i \<in> set work1" using work_list_Inr(2) [OF assms(1) w1] ip by simp
    moreover have "concat (chunks_from work1 1000 0) = work1"
      using chunks_from_concat [of 1000 work1 0] by simp
    ultimately have "i \<in> set (concat (chunks_from work1 1000 0))" by simp
    then obtain c1 where c1: "c1 \<in> set (chunks_from work1 1000 0)" "i \<in> set c1" by auto
    show "takes_continue od e"
    proof (rule ccontr)
      assume "\<not> takes_continue od e"
      from process_chunks_adds [OF pc1 assms(3) c1 e this] n1 show False by simp
    qed
  qed
  from process_chunks_continue [OF assms(3) cont, of "load st1"] obtain s2 where
    pc2: "process_chunks ?remote od (chunks_from work2 1000 0) (load st1) = (None, s2)"
    and s2: "structureList s2 = structureList (load st1)" by blast
  have run2: "fetchStructures ?remote set_iter2 pdbList2 od iwd True st1 = (None, save s2)"
    using w2 pc2 by (simp add: fetchStructures_def chunks_CHUNK_SIZE)
  have "structureList (save s2) = structureList st1"
    using s2 l1(1) st1 by (simp add: save_def)
  moreover have "structures_file (save s2) = structures_file st1"
    using s2 l1(1) st1 by (simp add: save_def)
  ultimately show ?thesis using run2 by blast
qed

theorem second_run_changes_nothing_witness:
  "enumerates (\<lambda>xs. xs) \<and> enumerates rev \<and> catalog_ids_match two_catalog \<and>
   set [''1BBB'', ''1AAA''] = set [''1AAA'', ''1BBB''] \<and>
   fst (fetchStructures (catalog_remote two_catalog) (\<lambda>xs. xs) [''1AAA'', ''1BBB'']
          True False True fresh_state) = None \<and>
   (\<exists>st2. fetchStructures (catalog_remote two_catalog) rev [''1BBB'', ''1AAA'']
             True False True
             (snd (fetchStructures (catalog_remote two_catalog) (\<lambda>xs. xs) [''1AAA'', ''1BBB'']
                     True False True fresh_state)) = (None, st2) \<and>
          map pdbid (structureList st2) = [JStr ''1BBB''])"
proof -
  let ?run1 = "fetchStructures (catalog_remote two_catalog) (\<lambda>xs. xs) [''1AAA'', ''1BBB'']
          True False True fresh_state"
  have e1: "enumerates (\<lambda>xs. xs)" and e2: "enumerates rev" by (simp_all add: enumerates_def)
  have cm: "catalog_ids_match two_catalog"
    unfolding catalog_ids_match_def two_catalog_def
    by (simp add: no_growth_entry_def growth_entry_def)
  have u: "set [''1BBB'', ''1AAA''] = set [''1AAA'', ''1BBB'']" by auto
  have r: "fst ?run1 = None"
    by (simp add: eval_defs fresh_state_def two_catalog_def no_growth_entry_def growth_entry_def)
  have ids: "map pdbid (structureList (snd ?run1)) = [JStr ''1BBB'']"
    by (simp add: eval_defs fresh_state_def two_catalog_def no_growth_entry_def growth_entry_def)
  have run1: "?run1 = (None, snd ?run1)" using r by (cases ?run1) simp
  from second_run_changes_nothing [OF e1 e2 cm u run1] obtain st2 where
    a: "fetchStructures (catalog_remote two_catalog) rev [''1BBB'', ''1AAA'']
             True False True (snd ?run1) = (None, st2)"
       "structureList st2 = structureList (snd ?run1)"
    by blast
  have "map pdbid (structureList st2) = [JStr ''1BBB'']" using a(2) ids by simp
  with a(1) have ex: "\<exists>st2. fetchStructures (catalog_remote two_catalog) rev [''1BBB'', ''1AAA'']
             True False True (snd ?run1) = (None, st2) \<and>
          map pdbid (structureList st2) = [JStr ''1BBB'']"
    by (intro exI [of _ st2] conjI)
  show ?thesis using e1 e2 cm u r ex by (intro conjI)
qed


end
